theory Spec2Isabelle
  imports Main "HOL-Library.Char_ord" "HOL-Library.List_Lexorder" "HOL-Library.AList"
begin

section \<open>Calendar dates as the service handles them\<close>

text \<open>
  \<^verbatim>\<open>services/sniper.ts\<close> keeps dates as strings and turns them into JavaScript
  \<^verbatim>\<open>Date\<close> objects with \<^verbatim>\<open>new Date(s + "T00:00:00.000Z")\<close>. A \<^verbatim>\<open>Date\<close> at UTC
  midnight is kept here by its UTC calendar fields (year, month, day of month). A triple
  that is not a calendar date stands for \<^verbatim>\<open>Invalid Date\<close>, whose time value is
  \<^verbatim>\<open>NaN\<close>.
\<close>

record DateRange =
  startDate :: string
  endDate :: string

type_synonym Date = "nat \<times> nat \<times> nat"

definition is_leap :: "nat \<Rightarrow> bool" where
  "is_leap y = (y mod 4 = 0 \<and> (y mod 100 \<noteq> 0 \<or> y mod 400 = 0))"

definition days_in_month :: "nat \<Rightarrow> nat \<Rightarrow> nat" where
  "days_in_month y m =
     (if m = 2 then (if is_leap y then 29 else 28)
      else if m = 4 \<or> m = 6 \<or> m = 9 \<or> m = 11 then 30 else 31)"

definition valid_date :: "Date \<Rightarrow> bool" where
  "valid_date c = (case c of (y, m, d) \<Rightarrow> 1 \<le> m \<and> m \<le> 12 \<and> 1 \<le> d \<and> d \<le> days_in_month y m)"

definition Invalid_Date :: Date where
  "Invalid_Date = (0, 0, 0)"

text \<open>Days from 0000-01-01 to the first day of year \<open>y\<close> in the proleptic Gregorian
  calendar, and from the first day of the year to the first day of month \<open>m\<close>.\<close>

definition days_before_year :: "nat \<Rightarrow> int" where
  "days_before_year y =
     365 * int y + int ((y + 3) div 4) - int ((y + 99) div 100) + int ((y + 399) div 400)"

definition days_before_month :: "nat \<Rightarrow> nat \<Rightarrow> int" where
  "days_before_month y m = int (sum_list (map (days_in_month y) [1..<m]))"

text \<open>The day number of a calendar date, counted from 1970-01-01, and the time value
  \<^verbatim>\<open>getTime()\<close> in milliseconds (\<open>None\<close> is \<^verbatim>\<open>NaN\<close>).\<close>

definition day_number :: "Date \<Rightarrow> int" where
  "day_number c =
     (case c of (y, m, d) \<Rightarrow> days_before_year y + days_before_month y m + int d - 1 - 719528)"

definition getTime :: "Date \<Rightarrow> int option" where
  "getTime c = (if valid_date c then Some (day_number c * 86400000) else None)"

text \<open>\<^verbatim>\<open>a < b\<close> on two \<^verbatim>\<open>Date\<close> objects compares their time values; a comparison
  with \<^verbatim>\<open>NaN\<close> is false.\<close>

definition date_less :: "Date \<Rightarrow> Date \<Rightarrow> bool" where
  "date_less a b = (case (getTime a, getTime b) of (Some x, Some y) \<Rightarrow> x < y | _ \<Rightarrow> False)"

text \<open>\<^verbatim>\<open>d.setUTCDate(d.getUTCDate() + 1)\<close>: the day of month is raised by one and a
  day past the end of the month carries into the next month or year; an
  \<^verbatim>\<open>Invalid Date\<close> stays invalid.\<close>

definition next_day :: "Date \<Rightarrow> Date" where
  "next_day c =
     (case c of (y, m, d) \<Rightarrow>
        if \<not> valid_date c then c
        else if d < days_in_month y m then (y, m, d + 1)
        else if m < 12 then (y, m + 1, 1)
        else (y + 1, 1, 1))"

subsection \<open>Parsing and printing\<close>

definition is_digit :: "char \<Rightarrow> bool" where
  "is_digit c = (48 \<le> (of_char c :: nat) \<and> (of_char c :: nat) \<le> 57)"

definition digit_of :: "char \<Rightarrow> nat" where
  "digit_of c = of_char c - 48"

definition digit_char :: "nat \<Rightarrow> char" where
  "digit_char n = ''0123456789'' ! n"

fun parse_ymd :: "string \<Rightarrow> Date" where
  "parse_ymd [y1, y2, y3, y4, s1, m1, m2, s2, d1, d2] =
     (if is_digit y1 \<and> is_digit y2 \<and> is_digit y3 \<and> is_digit y4 \<and> s1 = CHR ''-'' \<and>
         is_digit m1 \<and> is_digit m2 \<and> s2 = CHR ''-'' \<and> is_digit d1 \<and> is_digit d2
      then (1000 * digit_of y1 + 100 * digit_of y2 + 10 * digit_of y3 + digit_of y4,
            10 * digit_of m1 + digit_of m2,
            10 * digit_of d1 + digit_of d2)
      else Invalid_Date)"
| "parse_ymd _ = Invalid_Date"

declare parse_ymd.simps [simp del]

text \<open>
  \<^verbatim>\<open>new Date(s + "T00:00:00.000Z")\<close> in Node (V8). The parser first reads the string
  in the ECMAScript date-time format: four digits of year, then optionally \<^verbatim>\<open>-MM\<close>
  and \<^verbatim>\<open>-DD\<close> (a missing month or day is 1), a month from 01 to 12, a day from 01
  to 31, then the time. A day past the end of its month is carried into the next month
  (\<^verbatim>\<open>2026-02-30\<close> is 2 March 2026). A string that does not have this format goes to
  the parser's older rules, which refuse the letter \<^verbatim>\<open>T\<close> once a number has been
  read: a date part made of digits and hyphens that starts with a digit and is not in
  the format gives \<^verbatim>\<open>Invalid Date\<close>.

  For any other date part (letters, blanks, a sign in front, the empty string) what
  the parser's older rules make of the string is not fixed here: \<open>new_Date\<close> is
  \<open>None\<close>, and the functions that read dates take the engine's answer from a
  parameter (\<open>heuristics\<close> below).
\<close>

definition date_chars :: "string \<Rightarrow> bool" where
  "date_chars s =
     (case s of [] \<Rightarrow> False
      | c # cs \<Rightarrow> is_digit c \<and> list_all (\<lambda>x. is_digit x \<or> x = CHR ''-'') cs)"

text \<open>The fields read in the date-time format, with the defaults for a missing month
  and day; the parser accepts a month from 1 to 12 and a day from 1 to 31.\<close>

definition parse_iso :: "string \<Rightarrow> Date" where
  "parse_iso s =
     (if length s = 4 then parse_ymd (s @ ''-01-01'')
      else if length s = 7 then parse_ymd (s @ ''-01'')
      else parse_ymd s)"

definition iso_fields :: "Date \<Rightarrow> bool" where
  "iso_fields c = (case c of (y, m, d) \<Rightarrow> 1 \<le> m \<and> m \<le> 12 \<and> 1 \<le> d \<and> d \<le> 31)"

text \<open>The day of a month beyond the length of the month, carried into the next month
  (December has 31 days, so the year never changes).\<close>

definition carry_day :: "Date \<Rightarrow> Date" where
  "carry_day c =
     (case c of (y, m, d) \<Rightarrow>
        if days_in_month y m < d then (y, m + 1, d - days_in_month y m) else c)"

definition new_Date :: "string \<Rightarrow> Date option" where
  "new_Date str =
     (let n = length str - 14; s = take n str
      in if drop n str = ''T00:00:00.000Z'' \<and> date_chars s
         then Some (if iso_fields (parse_iso s) then carry_day (parse_iso s) else Invalid_Date)
         else None)"

text \<open>
  What the engine does with the date strings that \<open>new_Date\<close> leaves open: the nights
  \<^verbatim>\<open>expandRange\<close> lists for a range with such a date, whether
  \<^verbatim>\<open>new Date(s + "T00:00:00.000Z")\<close> is a date, and whether it still is one after
  \<^verbatim>\<open>setUTCDate(getUTCDate() + 1)\<close>.
\<close>

record heuristics =
  other_nights :: "DateRange \<Rightarrow> string list"
  other_date :: "string \<Rightarrow> bool"
  other_date_next :: "string \<Rightarrow> bool"

text \<open>An engine that reads none of these strings as a date.\<close>

definition no_heuristics :: heuristics where
  "no_heuristics =
     \<lparr>other_nights = (\<lambda>r. []), other_date = (\<lambda>s. False), other_date_next = (\<lambda>s. False)\<rparr>"

definition pad2 :: "nat \<Rightarrow> string" where
  "pad2 n = [digit_char (n div 10 mod 10), digit_char (n mod 10)]"

definition pad4 :: "nat \<Rightarrow> string" where
  "pad4 n = pad2 (n div 100) @ pad2 n"

text \<open>\<^verbatim>\<open>toISOString()\<close> of a valid date at UTC midnight. Years past 9999 print in the
  expanded form with a sign and six digits. On an \<^verbatim>\<open>Invalid Date\<close> the method throws
  a \<^verbatim>\<open>RangeError\<close>; every caller below tests \<open>valid_date\<close> first.\<close>

definition toISOString :: "Date \<Rightarrow> string" where
  "toISOString c =
     (case c of (y, m, d) \<Rightarrow>
        (if y \<le> 9999 then pad4 y else CHR ''+'' # pad2 (y div 10000) @ pad4 y)
        @ ''-'' @ pad2 m @ ''-'' @ pad2 d @ ''T00:00:00.000Z'')"

text \<open>The first ten characters of \<^verbatim>\<open>toISOString()\<close> for a year up to 9999.\<close>

definition isoDate :: "Date \<Rightarrow> string" where
  "isoDate c = (case c of (y, m, d) \<Rightarrow> pad4 y @ ''-'' @ pad2 m @ ''-'' @ pad2 d)"

text \<open>The order of calendar dates by year, then month, then day.\<close>

definition date_lex_less :: "Date \<Rightarrow> Date \<Rightarrow> bool" where
  "date_lex_less a b =
     (case a of (y, m, d) \<Rightarrow> case b of (y', m', d') \<Rightarrow>
        y < y' \<or> (y = y' \<and> (m < m' \<or> (m = m' \<and> d < d'))))"

fun show_nat :: "nat \<Rightarrow> string" where
  "show_nat n = (if n < 10 then [digit_char n] else show_nat (n div 10) @ [digit_char (n mod 10)])"

declare show_nat.simps [simp del]

text \<open>The defining equations that evaluate the functions above on concrete dates.\<close>

lemmas date_eval = new_Date_def date_chars_def parse_iso_def iso_fields_def carry_day_def
  Let_def valid_date_def is_digit_def digit_of_def days_in_month_def
  day_number_def days_before_year_def days_before_month_def is_leap_def upt_rec
  date_less_def getTime_def next_day_def toISOString_def pad2_def pad4_def digit_char_def
  Invalid_Date_def parse_ymd.simps isoDate_def

subsection \<open>One day after a calendar date\<close>

lemma ceil_div:
  fixes y j :: nat
  shows "(y + j) div Suc j = y div Suc j + (if y mod Suc j = 0 then 0 else 1)"
proof -
  define q where "q = y div Suc j"
  define r where "r = y mod Suc j"
  have y: "y = Suc j * q + r" unfolding q_def r_def by (rule mult_div_mod_eq[symmetric])
  have r: "r \<le> j" unfolding r_def by (metis less_Suc_eq_le mod_less_divisor zero_less_Suc)
  show ?thesis
  proof (cases "r = 0")
    case True
    have "Suc j * q \<le> Suc j * q + j" by simp
    moreover have "Suc j * q + j < Suc j * Suc q" by simp
    ultimately have "(Suc j * q + j) div Suc j = q"
      by (rule div_nat_eqI)
    with True y have "(y + j) div Suc j = q" by simp
    with True show ?thesis unfolding q_def r_def by simp
  next
    case False
    have "Suc j * Suc q \<le> Suc j * q + r + j" using False by simp
    moreover have "Suc j * q + r + j < Suc j * Suc (Suc q)" using r by simp
    ultimately have "(Suc j * q + r + j) div Suc j = Suc q"
      by (rule div_nat_eqI)
    with y have "(y + j) div Suc j = Suc q" by simp
    with False show ?thesis unfolding q_def r_def by simp
  qed
qed

lemma ceil_div_k:
  fixes y j k :: nat
  assumes "k = Suc j"
  shows "(y + j) div k = y div k + (if y mod k = 0 then 0 else 1)"
  unfolding assms by (rule ceil_div)

lemma suc3: "(4::nat) = Suc 3" by simp
lemma suc99: "(100::nat) = Suc 99" by simp
lemma suc399: "(400::nat) = Suc 399" by simp

lemma next_div4: "(Suc y + 3) div 4 = Suc (y div 4)" by simp
lemma next_div100: "(Suc y + 99) div 100 = Suc (y div 100)" by simp
lemma next_div400: "(Suc y + 399) div 400 = Suc (y div 400)" by simp

lemma mod400_mod100: "y mod 400 = 0 \<Longrightarrow> y mod 100 = 0" for y :: nat
  using mod_mod_cancel[of 100 400 y] by simp

lemma mod100_mod4: "y mod 100 = 0 \<Longrightarrow> y mod 4 = 0" for y :: nat
  using mod_mod_cancel[of 4 100 y] by simp

lemma days_before_year_Suc:
  "days_before_year (Suc y) = days_before_year y + (if is_leap y then 366 else 365)"
  apply (simp only: days_before_year_def[of "Suc y"] next_div4 next_div100 next_div400)
  apply (simp only: days_before_year_def ceil_div_k[OF suc3] ceil_div_k[OF suc99]
      ceil_div_k[OF suc399] is_leap_def)
  using mod400_mod100[of y] mod100_mod4[of y]
  by (cases "y mod 4 = 0"; cases "y mod 100 = 0"; cases "y mod 400 = 0") simp_all

lemma days_before_month_Suc:
  "1 \<le> m \<Longrightarrow> days_before_month y (Suc m) = days_before_month y m + int (days_in_month y m)"
  unfolding days_before_month_def by simp

lemma days_before_month_1: "days_before_month y (Suc 0) = 0"
  unfolding days_before_month_def by simp

lemma days_before_month_12:
  "days_before_month y 12 + int (days_in_month y 12) = (if is_leap y then 366 else 365)"
  unfolding days_before_month_def days_in_month_def
  by (simp add: eval_nat_numeral)

lemma day_number_next_day:
  assumes "valid_date c"
  shows "day_number (next_day c) = day_number c + 1"
proof -
  obtain y m d where c: "c = (y, m, d)" by (cases c)
  from assms c have v: "1 \<le> m" "m \<le> 12" "1 \<le> d" "d \<le> days_in_month y m"
    by (auto simp: valid_date_def)
  show ?thesis
  proof (cases "d < days_in_month y m")
    case True
    then show ?thesis using assms c by (simp add: next_day_def day_number_def)
  next
    case False
    with v have d: "d = days_in_month y m" by simp
    show ?thesis
    proof (cases "m < 12")
      case True
      then show ?thesis using assms c d v days_before_month_Suc[of m y]
        by (simp add: next_day_def day_number_def)
    next
      case False
      with v have "m = 12" by simp
      then show ?thesis using assms c d days_before_month_12[of y] days_before_year_Suc[of y]
        by (simp add: next_day_def day_number_def days_before_month_1)
    qed
  qed
qed

lemma valid_next_day: "valid_date c \<Longrightarrow> valid_date (next_day c)"
  by (cases c) (auto simp: valid_date_def next_day_def days_in_month_def)

lemma date_less_iff:
  "date_less a b \<longleftrightarrow> valid_date a \<and> valid_date b \<and> day_number a < day_number b"
  by (simp add: date_less_def getTime_def)

section \<open>expandRange\<close>

text \<open>
  \<^verbatim>\<open>expandRange\<close> (services/sniper.ts): the \<^verbatim>\<open>while (current < end)\<close> loop pushes
  \<^verbatim>\<open>current.toISOString().substring(0, 10)\<close> and moves \<^verbatim>\<open>current\<close> one day on.
\<close>

function expand_loop :: "Date \<Rightarrow> Date \<Rightarrow> string list \<Rightarrow> string list" where
  "expand_loop current endD dates =
     (if date_less current endD
      then expand_loop (next_day current) endD (dates @ [take 10 (toISOString current)])
      else dates)"
  by pat_completeness auto
termination
proof (relation "measure (\<lambda>(current, endD, dates). nat (day_number endD - day_number current))")
  show "wf (measure (\<lambda>(current, endD, dates). nat (day_number endD - day_number current)))"
    by simp
next
  fix current endD :: Date and dates :: "string list"
  assume "date_less current endD"
  then have "valid_date current" "day_number current < day_number endD"
    by (simp_all add: date_less_iff)
  then show "((next_day current, endD, dates @ [take 10 (toISOString current)]),
              (current, endD, dates))
        \<in> measure (\<lambda>(current, endD, dates). nat (day_number endD - day_number current))"
    by (simp add: day_number_next_day)
qed

declare expand_loop.simps [simp del]

definition expandRange :: "heuristics \<Rightarrow> DateRange \<Rightarrow> string list" where
  "expandRange H rg =
     (case (new_Date (startDate rg @ ''T00:00:00.000Z''),
            new_Date (endDate rg @ ''T00:00:00.000Z'')) of
        (Some current, Some endD) \<Rightarrow> expand_loop current endD []
      | _ \<Rightarrow> other_nights H rg)"

section \<open>checkAvailability\<close>

text \<open>
  What the \<^verbatim>\<open>fetch\<close> of the availability endpoint gives back: the call (or reading
  the body) is rejected with an error message, or a response arrives with its HTTP
  status and, in the body, \<^verbatim>\<open>payload.availability\<close>: for each division id the entries
  of \<^verbatim>\<open>date_availability\<close> in the order \<^verbatim>\<open>Object.entries\<close> lists them, each an ISO
  timestamp with its \<^verbatim>\<open>remaining\<close> count.
\<close>

datatype fetch_outcome =
    Rejected string
  | Response nat "string \<rightharpoonup> (string \<times> int) list"

definition res_ok :: "nat \<Rightarrow> bool" where
  "res_ok code = (200 \<le> code \<and> code \<le> 299)"

text \<open>The lookup \<^verbatim>\<open>availByDate\<close>: every entry is stored under the first ten
  characters of its key, a later entry replacing an earlier one.\<close>

definition availByDate :: "(string \<times> int) list \<Rightarrow> (string \<rightharpoonup> int)" where
  "availByDate entries =
     foldl (\<lambda>m (isoDate, remaining). m(take 10 isoDate \<mapsto> remaining)) Map.empty entries"

text \<open>\<^verbatim>\<open>nights.every((d) => (availByDate.get(d) ?? 0) > 0)\<close>\<close>

definition allAvailable :: "(string \<rightharpoonup> int) \<Rightarrow> string list \<Rightarrow> bool" where
  "allAvailable tbl nights =
     list_all (\<lambda>d. (case tbl d of Some remaining \<Rightarrow> remaining | None \<Rightarrow> 0) > 0) nights"

text \<open>The loop over the ranges in priority order.\<close>

fun firstAvailable ::
  "heuristics \<Rightarrow> (string \<rightharpoonup> int) \<Rightarrow> DateRange list \<Rightarrow> DateRange option" where
  "firstAvailable H tbl [] = None"
| "firstAvailable H tbl (rg # rest) =
     (if allAvailable tbl (expandRange H rg) then Some rg else firstAvailable H tbl rest)"

text \<open>
  \<^verbatim>\<open>checkAvailability(permitId, divisionId, ranges)\<close> with the outcome of its one
  \<^verbatim>\<open>fetch\<close> as a parameter. The result is \<open>Inl\<close> of the message of the thrown
  \<^verbatim>\<open>Error\<close>, or \<open>Inr\<close> of the range found (\<open>None\<close> is \<^verbatim>\<open>null\<close>). Before the
  request is sent the query window is printed with \<^verbatim>\<open>toISOString()\<close>, which throws
  when the smallest start date, or the largest end date (in the order of
  \<^verbatim>\<open>Array.prototype.sort\<close>) moved one day on, is not a date; with no range at all
  both strings are \<^verbatim>\<open>undefined\<close> and neither is a date.
\<close>

definition is_date :: "heuristics \<Rightarrow> string \<Rightarrow> bool" where
  "is_date H s =
     (case new_Date (s @ ''T00:00:00.000Z'') of
        Some d \<Rightarrow> valid_date d
      | None \<Rightarrow> other_date H s)"

definition is_date_next :: "heuristics \<Rightarrow> string \<Rightarrow> bool" where
  "is_date_next H s =
     (case new_Date (s @ ''T00:00:00.000Z'') of
        Some d \<Rightarrow> valid_date (next_day d)
      | None \<Rightarrow> other_date_next H s)"

definition checkAvailability ::
  "heuristics \<Rightarrow> fetch_outcome \<Rightarrow> string \<Rightarrow> string \<Rightarrow> DateRange list
     \<Rightarrow> string + DateRange option" where
  "checkAvailability H res permit division ranges =
     (let allStartDates = sort (map startDate ranges);
          allEndDates = sort (map endDate ranges);
          queryStart = (ranges \<noteq> [] \<and> is_date H (hd allStartDates));
          queryEnd = (ranges \<noteq> [] \<and> is_date_next H (last allEndDates))
      in if \<not> queryStart \<or> \<not> queryEnd then Inl ''Invalid time value''
         else case res of
           Rejected msg \<Rightarrow> Inl msg
         | Response code availability \<Rightarrow>
             if \<not> res_ok code then Inl (''HTTP '' @ show_nat code)
             else (case availability division of
                     None \<Rightarrow> Inr None
                   | Some entries \<Rightarrow> Inr (firstAvailable H (availByDate entries) ranges)))"

text \<open>The defining equations that evaluate an availability check on concrete input.\<close>

lemmas avail_eval = checkAvailability_def is_date_def is_date_next_def res_ok_def
  availByDate_def allAvailable_def expandRange_def expand_loop.simps

section \<open>Request validation (routes/sniper.ts)\<close>


section \<open>Jobs and the state of the service\<close>

text \<open>
  The repository holds the service in two builds. In \<^verbatim>\<open>services/sniper.ts\<close> the
  recreation.gov credentials are read from the environment when a job starts
  (\<open>EnvCredentials\<close>); in the other build of the same file the credentials arrive with
  each request and are kept in a map keyed by job id (\<open>JobCredentials\<close>). The two
  builds differ in \<^verbatim>\<open>createJob\<close>, \<^verbatim>\<open>supplyCredentials\<close>, \<^verbatim>\<open>cancelJob\<close>,
  \<^verbatim>\<open>loadAndScheduleJobs\<close> and the first lines of \<^verbatim>\<open>runSniperJob\<close>; the functions
  below take the build as their first argument.
\<close>

datatype build = EnvCredentials | JobCredentials

datatype SniperStatus = Pending | PreWarming | Watching | Booking | InCart | Failed | Cancelled

text \<open>
  \<^verbatim>\<open>SniperJob\<close>. The field \<^verbatim>\<open>id\<close> is \<open>jobId\<close> here. \<^verbatim>\<open>windowOpensAt\<close> is an ISO
  timestamp that the service only ever reads through \<^verbatim>\<open>new Date(...).getTime()\<close>: it
  is kept as that time value in milliseconds, \<open>None\<close> for \<^verbatim>\<open>NaN\<close>. \<^verbatim>\<open>createdAt\<close> and
  \<^verbatim>\<open>updatedAt\<close> are kept as time values too.
\<close>

record SniperJob =
  jobId :: string
  permitId :: string
  permitName :: string
  divisionId :: string
  desiredDateRanges :: "DateRange list"
  groupSize :: int
  windowOpensAt :: "int option"
  status :: SniperStatus
  attempts :: nat
  message :: string
  bookedRange :: "DateRange option"
  createdAt :: int
  updatedAt :: int

text \<open>\<^verbatim>\<open>SniperJobRequest\<close>; \<open>req_credentials\<close> are the \<^verbatim>\<open>email\<close> and \<^verbatim>\<open>password\<close> of the
  build with per-job credentials, and \<open>req_windowLocale\<close> is what
  \<^verbatim>\<open>new Date(req.windowOpensAt).toLocaleString()\<close> prints on the host.\<close>

record SniperJobRequest =
  req_permitId :: string
  req_permitName :: string
  req_divisionId :: string
  req_desiredDateRanges :: "DateRange list"
  req_groupSize :: int
  req_windowOpensAt :: "int option"
  req_credentials :: "string \<times> string"
  req_windowLocale :: string

definition PRE_WARM_LEAD_MS :: int where "PRE_WARM_LEAD_MS = 2 * 60 * 1000"
definition POLL_INTERVAL_MS :: int where "POLL_INTERVAL_MS = 1500"
definition MAX_WATCH_DURATION_MS :: int where "MAX_WATCH_DURATION_MS = 5 * 60 * 1000"

subsection \<open>Suspended calls\<close>

text \<open>
  The functions of the service are \<^verbatim>\<open>async\<close>: each runs without interruption up to
  its next \<^verbatim>\<open>await\<close> and is resumed later with the outcome of what it awaited, and
  other calls run in between. A suspended call is kept as a task: the place it waits
  at and its local variables. \<open>pc\<close> lists the places \<^verbatim>\<open>runSniperJob\<close> waits at, in
  the order of the source.
\<close>

datatype pc =
    AtSavePreWarm | AtLaunch | AtNewContext | AtNewPage | AtSignIn | AtGoto | AtSetGroupSize
  | AtSleepWindow | AtSaveWatching | AtPoll | AtSleepPoll | AtSaveBooking | AtBookPrimary
  | AtFallbackPoll | AtFallbackBook | AtSaveFinal | AtSaveCatch | AtClose

text \<open>The local variables of one activation of \<^verbatim>\<open>runSniperJob\<close>: the job object, the
  abort controller \<^verbatim>\<open>ac\<close>, the launched \<^verbatim>\<open>browser\<close>, \<^verbatim>\<open>watchDeadline\<close>,
  \<^verbatim>\<open>foundRange\<close>, and what is left of \<^verbatim>\<open>remainingRanges\<close> from the current
  \<^verbatim>\<open>fallbackRange\<close> on.\<close>

record frame =
  f_pc :: pc
  f_job :: nat
  f_ac :: nat
  f_browser :: "nat option"
  f_watchDeadline :: int
  f_foundRange :: "DateRange option"
  f_fallbacks :: "DateRange list"

datatype task =
    Engine frame
  | CancelClose string nat bool
  | CancelSave string bool
  | DeleteSave string
  | CreateSave nat
  | LoadSave

text \<open>What an awaited operation gives when it settles: it resolves, it rejects with an
  \<^verbatim>\<open>Error\<close> of some message, the availability request settles with a
  \<open>fetch_outcome\<close>, or \<^verbatim>\<open>attemptBrowserBooking\<close> resolves with \<^verbatim>\<open>"booked"\<close>
  (\<open>True\<close>) or \<^verbatim>\<open>"failed"\<close>.\<close>

datatype outcome = Resolved | Threw string | Fetched fetch_outcome | BookingResult bool

text \<open>What a finished call returned to its caller: the boolean of \<^verbatim>\<open>cancelJob\<close> and
  \<^verbatim>\<open>deleteJob\<close>, or the message of the error it rejected with.\<close>

datatype returned = CancelJobReturned string "string + bool" | DeleteJobReturned string "string + bool"

subsection \<open>The module state\<close>

text \<open>
  The maps of the module (\<^verbatim>\<open>jobs\<close>, \<^verbatim>\<open>credentials\<close>, \<^verbatim>\<open>timers\<close>, \<^verbatim>\<open>browsers\<close>,
  \<^verbatim>\<open>abortControllers\<close>) with what surrounds them. Job objects are shared between the
  \<^verbatim>\<open>jobs\<close> map and the activations that work on them, so they live in a store
  (\<open>heap\<close>) and are passed by reference; \<^verbatim>\<open>jobs\<close> keeps its insertion order, which
  \<^verbatim>\<open>saveJobs\<close> writes out. Browsers, abort controllers and timers are numbered as
  they are created. \<open>armed\<close> holds the timeouts that are still pending with the job each
  will start, \<open>aborted\<close> the controllers whose signal is aborted, \<open>closeCalls\<close> every
  call of \<^verbatim>\<open>browser.close()\<close> in order, \<open>published\<close> every snapshot passed to
  \<^verbatim>\<open>notify\<close>, \<open>disk\<close> the job list last written to the jobs file, \<open>writing\<close> the
  list that a call of \<^verbatim>\<open>saveJobs\<close> has made of the jobs and is writing out (by the
  task that waits for it), and \<open>env\<close> the process environment.
\<close>

record sys =
  heap :: "nat \<Rightarrow> SniperJob"
  nextRef :: nat
  jobs :: "(string \<times> nat) list"
  credentials :: "string \<rightharpoonup> string \<times> string"
  timers :: "string \<rightharpoonup> nat"
  armed :: "nat \<rightharpoonup> nat"
  nextTimer :: nat
  browsers :: "string \<rightharpoonup> nat"
  nextBrowser :: nat
  closeCalls :: "nat list"
  abortControllers :: "string \<rightharpoonup> nat"
  aborted :: "nat set"
  nextController :: nat
  tasks :: "nat \<rightharpoonup> task"
  nextTask :: nat
  published :: "SniperJob list"
  returns :: "returned list"
  disk :: "SniperJob list"
  writing :: "nat \<rightharpoonup> SniperJob list"
  env :: "string \<rightharpoonup> string"

definition emptyJob :: SniperJob where
  "emptyJob = \<lparr>jobId = [], permitId = [], permitName = [], divisionId = [],
     desiredDateRanges = [], groupSize = 0, windowOpensAt = None, status = Pending,
     attempts = 0, message = [], bookedRange = None, createdAt = 0, updatedAt = 0\<rparr>"

text \<open>The state of a process that has just started, with the jobs file and the
  environment it finds.\<close>

definition boot :: "SniperJob list \<Rightarrow> (string \<rightharpoonup> string) \<Rightarrow> sys" where
  "boot file environment =
     \<lparr>heap = (\<lambda>_. emptyJob), nextRef = 0, jobs = [], credentials = Map.empty,
      timers = Map.empty, armed = Map.empty, nextTimer = 0, browsers = Map.empty,
      nextBrowser = 0, closeCalls = [], abortControllers = Map.empty, aborted = {},
      nextController = 0, tasks = Map.empty, nextTask = 0, published = [], returns = [],
      disk = file, writing = Map.empty, env = environment\<rparr>"

subsection \<open>Helpers of the module\<close>

definition notify :: "SniperJob \<Rightarrow> sys \<Rightarrow> sys" where
  "notify job s = s\<lparr>published := published s @ [job]\<rparr>"

text \<open>\<^verbatim>\<open>updateJob(job, updates)\<close>: the updates are assigned to the job object,
  \<^verbatim>\<open>updatedAt\<close> is stamped and a copy is passed to \<^verbatim>\<open>notify\<close>.\<close>

definition updateJob :: "int \<Rightarrow> nat \<Rightarrow> (SniperJob \<Rightarrow> SniperJob) \<Rightarrow> sys \<Rightarrow> sys" where
  "updateJob now job updates s =
     (let job' = (updates (heap s job))\<lparr>updatedAt := now\<rparr>
      in notify job' (s\<lparr>heap := (heap s)(job := job')\<rparr>))"

text \<open>
  \<^verbatim>\<open>saveJobs()\<close> waits twice: for \<^verbatim>\<open>ensureDataDir()\<close>, after which it lists the
  values of \<^verbatim>\<open>jobs\<close> as they are at that moment (\<open>job_list\<close>), and for
  \<^verbatim>\<open>fs.writeFile\<close>, after which the jobs file holds that list. A write that fails
  is taken to leave the file as it was. \<open>at_save\<close> says that a task waits for
  \<^verbatim>\<open>saveJobs()\<close>.
\<close>

definition job_list :: "sys \<Rightarrow> SniperJob list" where
  "job_list s = map (\<lambda>(k, job). heap s job) (jobs s)"

fun at_save :: "task \<Rightarrow> bool" where
  "at_save (Engine f) =
     (f_pc f = AtSavePreWarm \<or> f_pc f = AtSaveWatching \<or> f_pc f = AtSaveBooking
      \<or> f_pc f = AtSaveFinal \<or> f_pc f = AtSaveCatch)"
| "at_save (CancelClose ident job nested) = False"
| "at_save (CancelSave ident nested) = True"
| "at_save (DeleteSave ident) = True"
| "at_save (CreateSave job) = True"
| "at_save LoadSave = True"

fun is_threw :: "outcome \<Rightarrow> bool" where
  "is_threw (Threw msg) = True"
| "is_threw out = False"

definition spawn :: "task \<Rightarrow> sys \<Rightarrow> sys" where
  "spawn t s = s\<lparr>tasks := (tasks s)(nextTask s \<mapsto> t), nextTask := Suc (nextTask s)\<rparr>"

definition clearTimeout :: "nat \<Rightarrow> sys \<Rightarrow> sys" where
  "clearTimeout h s = s\<lparr>armed := (armed s)(h := None)\<rparr>"

definition signal_aborted :: "nat \<Rightarrow> sys \<Rightarrow> bool" where
  "signal_aborted ac s = (ac \<in> aborted s)"

text \<open>\<^verbatim>\<open>getRecgovCredentials()\<close>: a variable that is unset or empty is missing.\<close>

definition getRecgovCredentials :: "(string \<rightharpoonup> string) \<Rightarrow> string + string \<times> string" where
  "getRecgovCredentials environment =
     (case (environment ''RECGOV_EMAIL'', environment ''RECGOV_PASSWORD'') of
        (Some email, Some password) \<Rightarrow>
          if email = [] \<or> password = []
          then Inl ''RECGOV_EMAIL and RECGOV_PASSWORD environment variables are required for sniper jobs''
          else Inr (email, password)
      | _ \<Rightarrow> Inl ''RECGOV_EMAIL and RECGOV_PASSWORD environment variables are required for sniper jobs'')"

section \<open>runSniperJob\<close>

text \<open>The \<^verbatim>\<open>finally\<close> block: the controller registered for the job is removed, and
  unless the job is in the cart the browser registered for it is closed; the
  activation then waits for \<^verbatim>\<open>browser.close()\<close>.\<close>

definition engine_finally :: "frame \<Rightarrow> sys \<Rightarrow> frame option \<times> sys" where
  "engine_finally f s =
     (let job = heap s (f_job f);
          s1 = s\<lparr>abortControllers := (abortControllers s)(jobId job := None)\<rparr>
      in if status job \<noteq> InCart
         then (case browsers s1 (jobId job) of
                 Some b \<Rightarrow> (Some (f\<lparr>f_pc := AtClose\<rparr>), s1\<lparr>closeCalls := closeCalls s1 @ [b]\<rparr>)
               | None \<Rightarrow> (None, s1))
         else (None, s1))"

text \<open>The \<^verbatim>\<open>catch\<close> block of the whole function.\<close>

definition engine_catch :: "int \<Rightarrow> string \<Rightarrow> frame \<Rightarrow> sys \<Rightarrow> frame option \<times> sys" where
  "engine_catch now msg f s =
     (if signal_aborted (f_ac f) s then engine_finally f s
      else (Some (f\<lparr>f_pc := AtSaveCatch\<rparr>),
            updateJob now (f_job f)
              (\<lambda>j. j\<lparr>status := Failed, message := ''Sniper failed: '' @ msg\<rparr>) s))"

text \<open>The head of the \<^verbatim>\<open>for\<close> loop over \<^verbatim>\<open>remainingRanges\<close>, and what follows
  the loop when no range is left.\<close>

definition fallback_loop :: "int \<Rightarrow> frame \<Rightarrow> sys \<Rightarrow> frame option \<times> sys" where
  "fallback_loop now f s =
     (case f_fallbacks f of
        [] \<Rightarrow>
          (Some (f\<lparr>f_pc := AtSaveFinal\<rparr>),
           updateJob now (f_job f)
             (\<lambda>j. j\<lparr>status := Failed,
                     message := ''Could not book any of the desired date ranges after ''
                       @ show_nat (attempts (heap s (f_job f))) @ '' attempts.''\<rparr>) s)
      | fallbackRange # rest \<Rightarrow>
          if signal_aborted (f_ac f) s then engine_finally f s
          else (Some (f\<lparr>f_pc := AtFallbackPoll\<rparr>), s))"

text \<open>What follows the \<^verbatim>\<open>while\<close> loop of the watch phase.\<close>

definition after_watch :: "int \<Rightarrow> frame \<Rightarrow> sys \<Rightarrow> frame option \<times> sys" where
  "after_watch now f s =
     (if signal_aborted (f_ac f) s then engine_finally f s
      else case f_foundRange f of
        None \<Rightarrow>
          (Some (f\<lparr>f_pc := AtSaveFinal\<rparr>),
           updateJob now (f_job f)
             (\<lambda>j. j\<lparr>status := Failed,
                     message := ''No availability detected after ''
                       @ show_nat (attempts (heap s (f_job f))) @ '' polls (300s). Window may have passed.''\<rparr>) s)
      | Some foundRange \<Rightarrow>
          (Some (f\<lparr>f_pc := AtSaveBooking\<rparr>),
           updateJob now (f_job f)
             (\<lambda>j. j\<lparr>status := Booking,
                     message := ''Booking '' @ startDate foundRange @ '' - ''
                       @ endDate foundRange @ ''...''\<rparr>) s))"

text \<open>The test of the \<^verbatim>\<open>while\<close> loop; when it holds \<^verbatim>\<open>job.attempts\<close> is raised
  and the availability request goes out.\<close>

definition watch_loop :: "int \<Rightarrow> frame \<Rightarrow> sys \<Rightarrow> frame option \<times> sys" where
  "watch_loop now f s =
     (if \<not> signal_aborted (f_ac f) s \<and> now < f_watchDeadline f
      then (Some (f\<lparr>f_pc := AtPoll\<rparr>),
            s\<lparr>heap := (heap s)(f_job f :=
                 (heap s (f_job f))\<lparr>attempts := Suc (attempts (heap s (f_job f)))\<rparr>)\<rparr>)
      else after_watch now f s)"

text \<open>The start of the watch phase, after the wait for the window.\<close>

definition watching_start :: "int \<Rightarrow> frame \<Rightarrow> sys \<Rightarrow> frame option \<times> sys" where
  "watching_start now f s =
     (if signal_aborted (f_ac f) s then engine_finally f s
      else (Some (f\<lparr>f_pc := AtSaveWatching\<rparr>),
            updateJob now (f_job f)
              (\<lambda>j. j\<lparr>status := Watching,
                      message := ''Window open! Polling for availability...''\<rparr>) s))"

text \<open>\<^verbatim>\<open>Math.round(waitMs / 1000)\<close> for a positive wait.\<close>

definition round_seconds :: "int \<Rightarrow> nat" where
  "round_seconds ms = nat ((ms + 500) div 1000)"

text \<open>An availability request that settles in any way other than with a response is a
  rejected \<^verbatim>\<open>fetch\<close>; \<^verbatim>\<open>attemptBrowserBooking\<close> catches every error and then
  resolves with \<^verbatim>\<open>"failed"\<close>.\<close>

fun as_fetch :: "outcome \<Rightarrow> fetch_outcome" where
  "as_fetch (Fetched fo) = fo"
| "as_fetch (Threw msg) = Rejected msg"
| "as_fetch _ = Rejected ''unknown error''"

fun booked :: "outcome \<Rightarrow> bool" where
  "booked (BookingResult b) = b"
| "booked _ = False"

text \<open>
  One activation of \<^verbatim>\<open>runSniperJob\<close> is resumed at the place it waits at with the
  outcome of what it awaited, and runs to its next \<^verbatim>\<open>await\<close> (\<open>Some\<close> of the frame it
  then has) or to its end (\<open>None\<close>). The activation waits at \<open>AtBookPrimary\<close> only with
  a range found and at the two fallback places only with a fallback range in hand; the
  branches for the other case are never taken.
\<close>

definition resume_engine ::
  "heuristics \<Rightarrow> int \<Rightarrow> outcome \<Rightarrow> frame \<Rightarrow> sys \<Rightarrow> frame option \<times> sys" where
  "resume_engine H now out f s =
     (let job = heap s (f_job f) in
      case f_pc f of
        AtSavePreWarm \<Rightarrow>
          (case out of Threw msg \<Rightarrow> engine_catch now msg f s
           | _ \<Rightarrow> (Some (f\<lparr>f_pc := AtLaunch\<rparr>), s))
      | AtLaunch \<Rightarrow>
          (case out of Threw msg \<Rightarrow> engine_catch now msg f s
           | _ \<Rightarrow> (Some (f\<lparr>f_pc := AtNewContext, f_browser := Some (nextBrowser s)\<rparr>),
                   s\<lparr>nextBrowser := Suc (nextBrowser s)\<rparr>))
      | AtNewContext \<Rightarrow>
          (case out of Threw msg \<Rightarrow> engine_catch now msg f s
           | _ \<Rightarrow> (Some (f\<lparr>f_pc := AtNewPage\<rparr>), s))
      | AtNewPage \<Rightarrow>
          (case out of Threw msg \<Rightarrow> engine_catch now msg f s
           | _ \<Rightarrow>
             (let s1 = s\<lparr>browsers := (browsers s)(jobId job := f_browser f)\<rparr>
              in if signal_aborted (f_ac f) s1 then engine_finally f s1
                 else (Some (f\<lparr>f_pc := AtSignIn\<rparr>), s1)))
      | AtSignIn \<Rightarrow>
          (case out of Threw msg \<Rightarrow> engine_catch now msg f s
           | _ \<Rightarrow>
             if signal_aborted (f_ac f) s then engine_finally f s
             else if desiredDateRanges job = []
             then engine_catch now
                    ''Cannot read properties of undefined (reading 'startDate')'' f s
             else (Some (f\<lparr>f_pc := AtGoto\<rparr>), s))
      | AtGoto \<Rightarrow>
          (case out of Threw msg \<Rightarrow> engine_catch now msg f s
           | _ \<Rightarrow>
             if signal_aborted (f_ac f) s then engine_finally f s
             else (Some (f\<lparr>f_pc := AtSetGroupSize\<rparr>), s))
      | AtSetGroupSize \<Rightarrow>
          (case windowOpensAt job of
             None \<Rightarrow> watching_start now f s
           | Some windowTime \<Rightarrow>
               if windowTime - now > 0
               then (Some (f\<lparr>f_pc := AtSleepWindow\<rparr>),
                     updateJob now (f_job f)
                       (\<lambda>j. j\<lparr>message := ''Pre-warmed. Waiting ''
                               @ show_nat (round_seconds (windowTime - now))
                               @ ''s for window to open...''\<rparr>) s)
               else watching_start now f s)
      | AtSleepWindow \<Rightarrow>
          (case out of Threw msg \<Rightarrow> engine_catch now msg f s
           | _ \<Rightarrow> watching_start now f s)
      | AtSaveWatching \<Rightarrow>
          (case out of Threw msg \<Rightarrow> engine_catch now msg f s
           | _ \<Rightarrow> watch_loop now
                   (f\<lparr>f_watchDeadline := now + MAX_WATCH_DURATION_MS, f_foundRange := None\<rparr>) s)
      | AtPoll \<Rightarrow>
          (let (f1, s1) =
                 (case checkAvailability H (as_fetch out) (permitId job) (divisionId job)
                         (desiredDateRanges job) of
                    Inr foundRange \<Rightarrow> (f\<lparr>f_foundRange := foundRange\<rparr>, s)
                  | Inl msg \<Rightarrow>
                      (f, updateJob now (f_job f)
                            (\<lambda>j. j\<lparr>message := ''Poll #'' @ show_nat (attempts job)
                                    @ '': API error ('' @ msg @ ''). Retrying...''\<rparr>) s))
           in case f_foundRange f1 of
                Some foundRange \<Rightarrow>
                  after_watch now f1
                    (updateJob now (f_job f)
                       (\<lambda>j. j\<lparr>message := ''Availability detected for '' @ startDate foundRange
                               @ '' - '' @ endDate foundRange @ ''! Attempting to book...''\<rparr>) s1)
              | None \<Rightarrow>
                  (Some (f1\<lparr>f_pc := AtSleepPoll\<rparr>),
                   updateJob now (f_job f)
                     (\<lambda>j. j\<lparr>message := ''Poll #'' @ show_nat (attempts job)
                             @ '': No availability yet. Next check in 1.5s...''\<rparr>) s1))
      | AtSleepPoll \<Rightarrow>
          (case out of Threw msg \<Rightarrow> engine_catch now msg f s
           | _ \<Rightarrow> watch_loop now f s)
      | AtSaveBooking \<Rightarrow>
          (case out of Threw msg \<Rightarrow> engine_catch now msg f s
           | _ \<Rightarrow> (Some (f\<lparr>f_pc := AtBookPrimary\<rparr>), s))
      | AtBookPrimary \<Rightarrow>
          (case f_foundRange f of
             None \<Rightarrow> (None, s)
           | Some foundRange \<Rightarrow>
               if booked out
               then (Some (f\<lparr>f_pc := AtSaveFinal\<rparr>),
                     updateJob now (f_job f)
                       (\<lambda>j. j\<lparr>status := InCart, bookedRange := Some foundRange,
                               message := ''Permit for '' @ startDate foundRange @ '' - ''
                                 @ endDate foundRange
                                 @ '' added to cart! Complete your purchase on recreation.gov.''\<rparr>) s)
               else fallback_loop now
                      (f\<lparr>f_fallbacks :=
                           filter (\<lambda>r. startDate r \<noteq> startDate foundRange
                                        \<or> endDate r \<noteq> endDate foundRange)
                             (desiredDateRanges job)\<rparr>) s)
      | AtFallbackPoll \<Rightarrow>
          (case f_fallbacks f of
             [] \<Rightarrow> (None, s)
           | fallbackRange # rest \<Rightarrow>
               (case checkAvailability H (as_fetch out) (permitId job) (divisionId job)
                       [fallbackRange] of
                  Inl msg \<Rightarrow> engine_catch now msg f s
                | Inr None \<Rightarrow> fallback_loop now (f\<lparr>f_fallbacks := rest\<rparr>) s
                | Inr (Some available) \<Rightarrow>
                    (Some (f\<lparr>f_pc := AtFallbackBook\<rparr>),
                     updateJob now (f_job f)
                       (\<lambda>j. j\<lparr>message := ''Primary range taken. Trying fallback: ''
                               @ startDate fallbackRange @ '' - '' @ endDate fallbackRange
                               @ ''...''\<rparr>) s)))
      | AtFallbackBook \<Rightarrow>
          (case f_fallbacks f of
             [] \<Rightarrow> (None, s)
           | fallbackRange # rest \<Rightarrow>
               if booked out
               then (Some (f\<lparr>f_pc := AtSaveFinal\<rparr>),
                     updateJob now (f_job f)
                       (\<lambda>j. j\<lparr>status := InCart, bookedRange := Some fallbackRange,
                               message := ''Permit for '' @ startDate fallbackRange @ '' - ''
                                 @ endDate fallbackRange
                                 @ '' (fallback) added to cart! Complete purchase on recreation.gov.''\<rparr>) s)
               else fallback_loop now (f\<lparr>f_fallbacks := rest\<rparr>) s)
      | AtSaveFinal \<Rightarrow>
          (case out of Threw msg \<Rightarrow> engine_catch now msg f s
           | _ \<Rightarrow> engine_finally f s)
      | AtSaveCatch \<Rightarrow> engine_finally f s
      | AtClose \<Rightarrow>
          (None, s\<lparr>browsers := (browsers s)(jobId job := None)\<rparr>))"


text \<open>The lines of \<^verbatim>\<open>runSniperJob\<close> after the credentials are in hand, up to the
  first \<^verbatim>\<open>await\<close>.\<close>

definition start_engine :: "int \<Rightarrow> nat \<Rightarrow> sys \<Rightarrow> sys" where
  "start_engine now job s =
     (let ac = nextController s;
          s1 = s\<lparr>nextController := Suc ac,
                 abortControllers := (abortControllers s)(jobId (heap s job) \<mapsto> ac)\<rparr>;
          s2 = updateJob now job
                 (\<lambda>j. j\<lparr>status := PreWarming,
                         message := ''Launching browser and signing in...''\<rparr>) s1
      in spawn (Engine \<lparr>f_pc = AtSavePreWarm, f_job = job, f_ac = ac, f_browser = None,
                        f_watchDeadline = 0, f_foundRange = None, f_fallbacks = []\<rparr>) s2)"

text \<open>\<^verbatim>\<open>runSniperJob(job)\<close> from its call to its first \<^verbatim>\<open>await\<close>, in either build.\<close>

definition runSniperJob :: "build \<Rightarrow> int \<Rightarrow> nat \<Rightarrow> sys \<Rightarrow> sys" where
  "runSniperJob b now job s =
     (case b of
        EnvCredentials \<Rightarrow>
          (case getRecgovCredentials (env s) of
             Inl msg \<Rightarrow> updateJob now job (\<lambda>j. j\<lparr>status := Failed, message := msg\<rparr>) s
           | Inr creds \<Rightarrow> start_engine now job s)
      | JobCredentials \<Rightarrow>
          (case credentials s (jobId (heap s job)) of
             None \<Rightarrow>
               updateJob now job
                 (\<lambda>j. j\<lparr>message :=
                    ''Cannot start: credentials not provided. Re-enter via the Sniper page.''\<rparr>) s
           | Some creds \<Rightarrow> start_engine now job s))"

section \<open>Scheduling\<close>

text \<open>\<^verbatim>\<open>scheduleJob(job)\<close>. With an unreadable \<^verbatim>\<open>windowOpensAt\<close> the delay is \<^verbatim>\<open>NaN\<close>,
  the test \<^verbatim>\<open>delayToPreWarm > 0\<close> fails and the job starts at once.\<close>

definition scheduleJob :: "build \<Rightarrow> int \<Rightarrow> nat \<Rightarrow> sys \<Rightarrow> sys" where
  "scheduleJob b now job s =
     (let s1 = (case timers s (jobId (heap s job)) of
                  Some existing \<Rightarrow> clearTimeout existing s
                | None \<Rightarrow> s)
      in case windowOpensAt (heap s job) of
           None \<Rightarrow> runSniperJob b now job s1
         | Some windowTime \<Rightarrow>
             if max 0 (windowTime - PRE_WARM_LEAD_MS - now) > 0
             then s1\<lparr>timers := (timers s1)(jobId (heap s job) \<mapsto> nextTimer s1),
                     armed := (armed s1)(nextTimer s1 \<mapsto> job),
                     nextTimer := Suc (nextTimer s1)\<rparr>
             else runSniperJob b now job s1)"

text \<open>The callback of the timeout that \<^verbatim>\<open>scheduleJob\<close> sets.\<close>

definition timer_fires :: "build \<Rightarrow> int \<Rightarrow> nat \<Rightarrow> sys \<Rightarrow> sys" where
  "timer_fires b now h s =
     (case armed s h of
        None \<Rightarrow> s
      | Some job \<Rightarrow>
          runSniperJob b now job
            (s\<lparr>armed := (armed s)(h := None),
               timers := (timers s)(jobId (heap s job) := None)\<rparr>))"

section \<open>The public functions\<close>

text \<open>\<^verbatim>\<open>createJob(req)\<close> up to its \<^verbatim>\<open>await saveJobs()\<close>, with the identifier that
  \<^verbatim>\<open>crypto.randomUUID()\<close> gives, and the rest of it once the write has settled.\<close>

definition createJob :: "build \<Rightarrow> int \<Rightarrow> SniperJobRequest \<Rightarrow> string \<Rightarrow> sys \<Rightarrow> sys" where
  "createJob b now req uuid s =
     (let job = \<lparr>jobId = uuid, permitId = req_permitId req, permitName = req_permitName req,
                 divisionId = req_divisionId req,
                 desiredDateRanges = req_desiredDateRanges req, groupSize = req_groupSize req,
                 windowOpensAt = req_windowOpensAt req, status = Pending, attempts = 0,
                 message = ''Scheduled. Window opens at '' @ req_windowLocale req @ ''.'',
                 bookedRange = None, createdAt = now, updatedAt = now\<rparr>;
          s1 = s\<lparr>heap := (heap s)(nextRef s := job), nextRef := Suc (nextRef s),
                 jobs := AList.update uuid (nextRef s) (jobs s)\<rparr>;
          s2 = (case b of
                  JobCredentials \<Rightarrow>
                    s1\<lparr>credentials := (credentials s1)(uuid \<mapsto> req_credentials req)\<rparr>
                | EnvCredentials \<Rightarrow> s1)
      in spawn (CreateSave (nextRef s)) s2)"

definition createJob_saved :: "build \<Rightarrow> int \<Rightarrow> outcome \<Rightarrow> nat \<Rightarrow> sys \<Rightarrow> sys" where
  "createJob_saved b now out job s =
     (case out of
        Threw msg \<Rightarrow> s
      | _ \<Rightarrow> (let s1 = scheduleJob b now job s
              in notify (heap s1 job) s1))"

text \<open>\<^verbatim>\<open>supplyCredentials(id, email, password)\<close>, of the build with per-job
  credentials.\<close>

definition supplyCredentials :: "build \<Rightarrow> int \<Rightarrow> string \<Rightarrow> string \<times> string \<Rightarrow> sys \<Rightarrow> sys" where
  "supplyCredentials b now ident creds s =
     (case b of
        EnvCredentials \<Rightarrow> s
      | JobCredentials \<Rightarrow>
          (case map_of (jobs s) ident of
             None \<Rightarrow> s
           | Some job \<Rightarrow>
               (let s1 = s\<lparr>credentials := (credentials s)(ident \<mapsto> creds)\<rparr>;
                    s2 = (if status (heap s1 job) = Pending then scheduleJob b now job s1 else s1)
                in updateJob now job
                     (\<lambda>j. j\<lparr>message := ''Credentials updated. '' @ message (heap s2 job)\<rparr>) s2)))"

text \<open>
  \<^verbatim>\<open>cancelJob(id)\<close> in three parts: from the call to the \<^verbatim>\<open>await\<close> of
  \<^verbatim>\<open>browser.close()\<close> (or, with no browser registered, of \<^verbatim>\<open>saveJobs()\<close>), from
  there to the \<^verbatim>\<open>await\<close> of \<^verbatim>\<open>saveJobs()\<close>, and the return. The flag says that the
  call is the one inside \<^verbatim>\<open>deleteJob(id)\<close>, which goes on with \<^verbatim>\<open>jobs.delete(id)\<close>
  and a write of its own whatever \<^verbatim>\<open>cancelJob\<close> returned.
\<close>

definition deleteJob_continue :: "string \<Rightarrow> sys \<Rightarrow> sys" where
  "deleteJob_continue ident s =
     spawn (DeleteSave ident) (s\<lparr>jobs := AList.delete ident (jobs s)\<rparr>)"

definition cancelJob_returns :: "string \<Rightarrow> bool \<Rightarrow> bool \<Rightarrow> sys \<Rightarrow> sys" where
  "cancelJob_returns ident nested result s =
     (if nested then deleteJob_continue ident s
      else s\<lparr>returns := returns s @ [CancelJobReturned ident (Inr result)]\<rparr>)"

definition cancelJob_closed :: "build \<Rightarrow> int \<Rightarrow> string \<Rightarrow> nat \<Rightarrow> bool \<Rightarrow> sys \<Rightarrow> sys" where
  "cancelJob_closed b now ident job nested s =
     (let s1 = (case b of
                  JobCredentials \<Rightarrow> s\<lparr>credentials := (credentials s)(ident := None)\<rparr>
                | EnvCredentials \<Rightarrow> s);
          s2 = updateJob now job
                 (\<lambda>j. j\<lparr>status := Cancelled, message := ''Cancelled by user.''\<rparr>) s1
      in spawn (CancelSave ident nested) s2)"

definition cancelJob :: "build \<Rightarrow> int \<Rightarrow> string \<Rightarrow> bool \<Rightarrow> sys \<Rightarrow> sys" where
  "cancelJob b now ident nested s =
     (case map_of (jobs s) ident of
        None \<Rightarrow> cancelJob_returns ident nested False s
      | Some job \<Rightarrow>
          (let s1 = (case timers s ident of
                       Some timer \<Rightarrow> (clearTimeout timer s)\<lparr>timers := (timers s)(ident := None)\<rparr>
                     | None \<Rightarrow> s);
               s2 = (case abortControllers s1 ident of
                       Some ac \<Rightarrow>
                         s1\<lparr>aborted := insert ac (aborted s1),
                            abortControllers := (abortControllers s1)(ident := None)\<rparr>
                     | None \<Rightarrow> s1)
           in case browsers s2 ident of
                Some browser \<Rightarrow>
                  spawn (CancelClose ident job nested)
                    (s2\<lparr>closeCalls := closeCalls s2 @ [browser]\<rparr>)
              | None \<Rightarrow> cancelJob_closed b now ident job nested s2))"

definition cancelJob_after_close :: "build \<Rightarrow> int \<Rightarrow> string \<Rightarrow> nat \<Rightarrow> bool \<Rightarrow> sys \<Rightarrow> sys" where
  "cancelJob_after_close b now ident job nested s =
     cancelJob_closed b now ident job nested (s\<lparr>browsers := (browsers s)(ident := None)\<rparr>)"

definition cancelJob_saved :: "outcome \<Rightarrow> string \<Rightarrow> bool \<Rightarrow> sys \<Rightarrow> sys" where
  "cancelJob_saved out ident nested s =
     (case out of
        Threw msg \<Rightarrow>
          s\<lparr>returns := returns s @
               [if nested then DeleteJobReturned ident (Inl msg)
                else CancelJobReturned ident (Inl msg)]\<rparr>
      | _ \<Rightarrow> cancelJob_returns ident nested True s)"

text \<open>\<^verbatim>\<open>deleteJob(id)\<close> after its own \<^verbatim>\<open>saveJobs()\<close>: it returns \<^verbatim>\<open>true\<close>.\<close>

definition deleteJob_saved :: "outcome \<Rightarrow> string \<Rightarrow> sys \<Rightarrow> sys" where
  "deleteJob_saved out ident s =
     (case out of
        Threw msg \<Rightarrow> s\<lparr>returns := returns s @ [DeleteJobReturned ident (Inl msg)]\<rparr>
      | _ \<Rightarrow> s\<lparr>returns := returns s @ [DeleteJobReturned ident (Inr True)]\<rparr>)"

text \<open>
  \<^verbatim>\<open>loadAndScheduleJobs()\<close>: the body of its loop for one job read from the jobs file,
  and the whole function from the moment the file has been read to the
  \<^verbatim>\<open>await saveJobs()\<close>.
\<close>

definition load_one :: "build \<Rightarrow> int \<Rightarrow> sys \<Rightarrow> SniperJob \<Rightarrow> sys" where
  "load_one b now s dj =
     (let job = nextRef s;
          s1 = s\<lparr>heap := (heap s)(job := dj), nextRef := Suc job,
                 jobs := AList.update (jobId dj) job (jobs s)\<rparr>
      in if status dj = Pending
         then (case windowOpensAt dj of
                 Some windowTime \<Rightarrow>
                   if windowTime + MAX_WATCH_DURATION_MS > now
                   then (case b of
                           EnvCredentials \<Rightarrow> scheduleJob b now job s1
                         | JobCredentials \<Rightarrow>
                             (let s2 = updateJob now job
                                    (\<lambda>j. j\<lparr>message :=
                                       (if credentials s1 (jobId dj) \<noteq> None then message dj
                                        else ''Awaiting credentials (server restarted). Re-enter via the UI.'')\<rparr>)
                                    s1
                              in if credentials s2 (jobId dj) \<noteq> None
                                 then scheduleJob b now job s2 else s2))
                   else updateJob now job
                          (\<lambda>j. j\<lparr>status := Failed,
                                  message := ''Window has already passed (server was offline).''\<rparr>) s1
               | None \<Rightarrow>
                   updateJob now job
                     (\<lambda>j. j\<lparr>status := Failed,
                             message := ''Window has already passed (server was offline).''\<rparr>) s1)
         else s1)"

definition loadAndScheduleJobs :: "build \<Rightarrow> int \<Rightarrow> sys \<Rightarrow> sys" where
  "loadAndScheduleJobs b now s = spawn LoadSave (foldl (load_one b now) s (disk s))"

section \<open>The service as a machine\<close>

text \<open>
  What can happen to the process, one event at a time: a call of a public function, a
  timeout that fires, an awaited operation that settles (which resumes the call that
  waits for it), and the end of the process followed by a new start on the same jobs
  file.
\<close>

datatype event =
    CallCreateJob SniperJobRequest string
  | CallSupplyCredentials string "string \<times> string"
  | CallCancelJob string
  | CallDeleteJob string
  | CallLoadAndScheduleJobs
  | TimerFires nat
  | Settles nat outcome
  | Restart "string \<rightharpoonup> string"

text \<open>
  An awaited operation settles and the task that waits for it goes on. For a task that
  waits for \<^verbatim>\<open>saveJobs()\<close> the first settlement is that of \<^verbatim>\<open>ensureDataDir()\<close>: unless
  it is a rejection the list of jobs is made and the task waits on, now for the write;
  when the write settles without a rejection the jobs file holds the list. After its
  \<^verbatim>\<open>saveJobs()\<close>, \<^verbatim>\<open>loadAndScheduleJobs\<close> only writes to the log.
\<close>

definition resume :: "heuristics \<Rightarrow> build \<Rightarrow> int \<Rightarrow> nat \<Rightarrow> outcome \<Rightarrow> sys \<Rightarrow> sys" where
  "resume H b now tid out s =
     (case tasks s tid of
        None \<Rightarrow> s
      | Some t \<Rightarrow>
          if at_save t \<and> writing s tid = None \<and> \<not> is_threw out
          then s\<lparr>writing := (writing s)(tid \<mapsto> job_list s)\<rparr>
          else
          (let s0 = s\<lparr>tasks := (tasks s)(tid := None),
                      writing := (writing s)(tid := None),
                      disk := (case writing s tid of
                                 Some written \<Rightarrow> if is_threw out then disk s else written
                               | None \<Rightarrow> disk s)\<rparr> in
           case t of
             Engine f \<Rightarrow>
               (case resume_engine H now out f s0 of
                  (Some f', s1) \<Rightarrow> s1\<lparr>tasks := (tasks s1)(tid \<mapsto> Engine f')\<rparr>
                | (None, s1) \<Rightarrow> s1)
           | CancelClose ident job nested \<Rightarrow> cancelJob_after_close b now ident job nested s0
           | CancelSave ident nested \<Rightarrow> cancelJob_saved out ident nested s0
           | DeleteSave ident \<Rightarrow> deleteJob_saved out ident s0
           | CreateSave job \<Rightarrow> createJob_saved b now out job s0
           | LoadSave \<Rightarrow> s0))"

fun step :: "heuristics \<Rightarrow> build \<Rightarrow> sys \<Rightarrow> int \<times> event \<Rightarrow> sys" where
  "step H b s (now, CallCreateJob req uuid) = createJob b now req uuid s"
| "step H b s (now, CallSupplyCredentials ident creds) = supplyCredentials b now ident creds s"
| "step H b s (now, CallCancelJob ident) = cancelJob b now ident False s"
| "step H b s (now, CallDeleteJob ident) = cancelJob b now ident True s"
| "step H b s (now, CallLoadAndScheduleJobs) = loadAndScheduleJobs b now s"
| "step H b s (now, TimerFires h) = timer_fires b now h s"
| "step H b s (now, Settles tid out) = resume H b now tid out s"
| "step H b s (now, Restart environment) = boot (disk s) environment"

text \<open>The state after a run of events, each with the time at which it happens.\<close>

definition run :: "heuristics \<Rightarrow> build \<Rightarrow> sys \<Rightarrow> (int \<times> event) list \<Rightarrow> sys" where
  "run H b s evs = foldl (step H b) s evs"

section \<open>Example inputs\<close>

definition example_request :: SniperJobRequest where
  "example_request = \<lparr>req_permitId = ''4675310'', req_permitName = ''Enchantments'',
     req_divisionId = ''412'',
     req_desiredDateRanges = [\<lparr>startDate = ''2026-07-15'', endDate = ''2026-07-17''\<rparr>,
                              \<lparr>startDate = ''2026-07-20'', endDate = ''2026-07-22''\<rparr>],
     req_groupSize = 2, req_windowOpensAt = Some 10000000,
     req_credentials = (''hiker@example.org'', ''secret''),
     req_windowLocale = ''1/1/1970, 2:46:40 AM''\<rparr>"

definition example_env :: "string \<rightharpoonup> string" where
  "example_env = [''RECGOV_EMAIL'' \<mapsto> ''hiker@example.org'', ''RECGOV_PASSWORD'' \<mapsto> ''secret'']"

text \<open>A job created at time 0 whose window opens at 10000 s, with its first write done:
  its trigger is armed for 9880 s.\<close>

definition example_pending :: "build \<Rightarrow> (string \<rightharpoonup> string) \<Rightarrow> sys" where
  "example_pending b environment =
     run no_heuristics b (boot [] environment)
       [(0, CallCreateJob example_request ''job-1''), (3, Settles 0 Resolved),
        (5, Settles 0 Resolved)]"

lemmas sys_eval = run_def createJob_def spawn_def resume_def createJob_saved_def
  job_list_def scheduleJob_def clearTimeout_def notify_def timer_fires_def
  runSniperJob_def getRecgovCredentials_def updateJob_def boot_def start_engine_def
  PRE_WARM_LEAD_MS_def MAX_WATCH_DURATION_MS_def Let_def example_request_def
  example_pending_def example_env_def

definition example_disk_job :: SniperJob where
  "example_disk_job = \<lparr>jobId = ''job-1'', permitId = ''4675310'', permitName = ''Enchantments'',
     divisionId = ''412'',
     desiredDateRanges = [\<lparr>startDate = ''2026-07-15'', endDate = ''2026-07-17''\<rparr>],
     groupSize = 2, windowOpensAt = Some 0, status = Pending, attempts = 0,
     message = ''Scheduled. Window opens at 1/1/1970, 12:00:00 AM.'', bookedRange = None,
     createdAt = 0, updatedAt = 0\<rparr>"

section \<open>Facts about dates and their strings\<close>

lemma digit_cases: "n < 10 \<Longrightarrow> n \<in> {0, 1, 2, 3, 4, 5, 6, 7, 8, 9 :: nat}"
  by auto

lemma digit_char_digit:
  assumes "n < 10"
  shows "is_digit (digit_char n)" and "digit_of (digit_char n) = n"
  using digit_cases[OF assms] by (auto simp: is_digit_def digit_of_def digit_char_def)

lemma is_digit_cases:
  assumes "is_digit c"
  shows "c \<in> set ''0123456789''"
proof -
  from assms have "(of_char c :: nat) - 48 < 10" "48 \<le> (of_char c :: nat)"
    by (auto simp: is_digit_def)
  from digit_cases[OF this(1)] this(2)
  have "(of_char c :: nat) \<in> of_char ` set ''0123456789''"
    by auto presburger+
  then show ?thesis by (auto simp only: of_char_eq_iff)
qed

lemma digit_of_digit:
  assumes "is_digit c"
  shows "digit_of c < 10" and "digit_char (digit_of c) = c"
  using is_digit_cases[OF assms] by (auto simp: digit_of_def digit_char_def)

lemma two_digits:
  fixes k d :: nat
  assumes "d < 10"
  shows "(10 * k + d) div 10 = k" and "(10 * k + d) mod 10 = d"
  using assms by simp_all

lemma pad2_digits:
  assumes "a < 10" "b < 10"
  shows "pad2 (10 * a + b) = [digit_char a, digit_char b]"
  using assms by (simp add: pad2_def)

lemma pad4_digits:
  assumes "a < 10" "b < 10" "c < 10" "d < 10"
  shows "pad4 (1000 * a + 100 * b + 10 * c + d) = [digit_char a, digit_char b, digit_char c, digit_char d]"
proof -
  define n where "n = 1000 * a + 100 * b + 10 * c + d"
  have h1: "n = 10 * (100 * a + 10 * b + c) + d" by (simp add: n_def)
  have h2: "100 * a + 10 * b + c = 10 * (10 * a + b) + c" by simp
  have q1: "n div 10 = 100 * a + 10 * b + c" "n mod 10 = d"
    by (subst h1, rule two_digits[OF assms(4)])+
  have q2: "(100 * a + 10 * b + c) div 10 = 10 * a + b" "(100 * a + 10 * b + c) mod 10 = c"
    by (subst h2, rule two_digits[OF assms(3)])+
  have "n div 100 = n div 10 div 10"
    using div_mult2_eq[of n 10 10] by simp
  then have q3: "n div 100 = 10 * a + b" using q1 q2 by simp
  have "pad4 n = [digit_char a, digit_char b, digit_char c, digit_char d]"
    unfolding pad4_def pad2_def q3 q1 q2 two_digits[OF assms(2)] using assms(1) by simp
  then show ?thesis by (simp only: n_def)
qed

lemma parse_ymd_shape:
  assumes "is_digit y1" "is_digit y2" "is_digit y3" "is_digit y4" "is_digit m1" "is_digit m2"
    "is_digit d1" "is_digit d2"
  shows "parse_ymd [y1, y2, y3, y4, CHR ''-'', m1, m2, CHR ''-'', d1, d2] =
     (1000 * digit_of y1 + 100 * digit_of y2 + 10 * digit_of y3 + digit_of y4,
            10 * digit_of m1 + digit_of m2, 10 * digit_of d1 + digit_of d2)"
  by (simp only: parse_ymd.simps(1) assms simp_thms if_True)

lemma wf_dateE:
  assumes "valid_date (parse_ymd s)"
  obtains y1 y2 y3 y4 m1 m2 d1 d2 where
    "s = [y1, y2, y3, y4, CHR ''-'', m1, m2, CHR ''-'', d1, d2]"
    "is_digit y1" "is_digit y2" "is_digit y3" "is_digit y4" "is_digit m1" "is_digit m2"
    "is_digit d1" "is_digit d2"
  using assms
  by (cases s rule: parse_ymd.cases)
     (auto simp: parse_ymd.simps Invalid_Date_def valid_date_def split: if_splits)

lemma take10_toISOString:
  "fst c \<le> 9999 \<Longrightarrow> take 10 (toISOString c) = isoDate c"
  by (cases c) (simp add: toISOString_def isoDate_def pad4_def pad2_def)

lemma isoDate_parse:
  assumes "valid_date (parse_ymd s)"
  shows "isoDate (parse_ymd s) = s"
proof (rule wf_dateE[OF assms])
  fix y1 y2 y3 y4 m1 m2 d1 d2
  assume s: "s = [y1, y2, y3, y4, CHR ''-'', m1, m2, CHR ''-'', d1, d2]"
    and dg: "is_digit y1" "is_digit y2" "is_digit y3" "is_digit y4" "is_digit m1" "is_digit m2"
    "is_digit d1" "is_digit d2"
  note lt = dg[THEN digit_of_digit(1)] and rt = dg[THEN digit_of_digit(2)]
  have p: "parse_ymd s = (1000 * digit_of y1 + 100 * digit_of y2 + 10 * digit_of y3 + digit_of y4,
            10 * digit_of m1 + digit_of m2, 10 * digit_of d1 + digit_of d2)"
    unfolding s by (rule parse_ymd_shape[OF dg])
  have a: "pad4 (1000 * digit_of y1 + 100 * digit_of y2 + 10 * digit_of y3 + digit_of y4) = [y1, y2, y3, y4]"
    using pad4_digits[OF lt(1-4)] rt(1-4) by simp
  have b: "pad2 (10 * digit_of m1 + digit_of m2) = [m1, m2]"
    using pad2_digits[OF lt(5,6)] rt(5,6) by simp
  have c: "pad2 (10 * digit_of d1 + digit_of d2) = [d1, d2]"
    using pad2_digits[OF lt(7,8)] rt(7,8) by simp
  show ?thesis
    unfolding p isoDate_def prod.case a b c by (simp add: s)
qed

lemma parse_year_le:
  assumes "valid_date (parse_ymd s)"
  shows "fst (parse_ymd s) \<le> 9999"
proof (rule wf_dateE[OF assms])
  fix y1 y2 y3 y4 m1 m2 d1 d2
  assume s: "s = [y1, y2, y3, y4, CHR ''-'', m1, m2, CHR ''-'', d1, d2]"
    and dg: "is_digit y1" "is_digit y2" "is_digit y3" "is_digit y4" "is_digit m1" "is_digit m2"
    "is_digit d1" "is_digit d2"
  note lt = dg[THEN digit_of_digit(1)]
  show ?thesis unfolding s parse_ymd_shape[OF dg] fst_conv using lt(1-4) by linarith
qed

lemma digits_of_lt100:
  fixes n :: nat
  assumes "n < 100"
  shows "10 * (n div 10 mod 10) + n mod 10 = n"
proof -
  have "n div 10 < 10" using assms by simp
  then have "n div 10 mod 10 = n div 10" by simp
  then show ?thesis by simp
qed

lemma digits_of_lt10000:
  fixes y :: nat
  assumes "y < 10000"
  shows "1000 * (y div 100 div 10 mod 10) + 100 * (y div 100 mod 10) + 10 * (y div 10 mod 10) + y mod 10 = y"
proof -
  have q: "y div 100 < 100" using assms by simp
  have "y mod 100 = 10 * (y div 10 mod 10) + y mod 10"
    using mod_mult2_eq[of y 10 10] by simp
  moreover have "y = 100 * (y div 100) + y mod 100" by simp
  moreover have "10 * (y div 100 div 10 mod 10) + y div 100 mod 10 = y div 100"
    by (rule digits_of_lt100[OF q])
  ultimately show ?thesis by linarith
qed

lemma parse_isoDate:
  assumes "valid_date c" "fst c \<le> 9999"
  shows "parse_ymd (isoDate c) = c"
proof -
  obtain y m d where c: "c = (y, m, d)" by (cases c)
  from assms c have b: "y < 10000" "m < 100" "d < 100"
    by (auto simp: valid_date_def days_in_month_def split: if_splits)
  have dg: "\<And>n. is_digit (digit_char (n mod 10))" "\<And>n. digit_of (digit_char (n mod 10)) = n mod 10"
    by (simp_all add: digit_char_digit)
  have "parse_ymd (isoDate c) =
     (1000 * (y div 100 div 10 mod 10) + 100 * (y div 100 mod 10) + 10 * (y div 10 mod 10) + y mod 10,
      10 * (m div 10 mod 10) + m mod 10, 10 * (d div 10 mod 10) + d mod 10)"
    unfolding c isoDate_def prod.case pad4_def pad2_def append.simps
    by (simp only: parse_ymd.simps(1) dg simp_thms if_True)
  then show ?thesis
    unfolding c digits_of_lt10000[OF b(1)] digits_of_lt100[OF b(2)] digits_of_lt100[OF b(3)] .
qed

lemma days_before_month_mono:
  "m \<le> m' \<Longrightarrow> days_before_month y m \<le> days_before_month y m'"
proof (induction m' rule: nat_induct_at_least)
  case base
  show ?case by simp
next
  case (Suc n)
  show ?case
  proof (cases "1 \<le> n")
    case True
    from days_before_month_Suc[OF True, of y] Suc.IH show ?thesis by simp
  next
    case False
    then have "n = 0" by simp
    with Suc show ?thesis by (simp add: days_before_month_def)
  qed
qed

lemma days_to_month_end_le:
  assumes "1 \<le> m" "m \<le> 12"
  shows "days_before_month y m + int (days_in_month y m) \<le> (if is_leap y then 366 else 365)"
proof -
  have "days_before_month y m + int (days_in_month y m) = days_before_month y (Suc m)"
    using days_before_month_Suc[OF assms(1), of y] by simp
  also have "\<dots> \<le> days_before_month y 13"
    by (rule days_before_month_mono) (use assms in simp)
  also have "days_before_month y 13 = days_before_month y 12 + int (days_in_month y 12)"
    using days_before_month_Suc[of 12 y] by simp
  also have "\<dots> = (if is_leap y then 366 else 365)" by (rule days_before_month_12)
  finally show ?thesis .
qed

lemma days_before_year_mono: "y \<le> y' \<Longrightarrow> days_before_year y \<le> days_before_year y'"
proof (induction y' rule: nat_induct_at_least)
  case base
  show ?case by simp
next
  case (Suc n)
  then show ?case using days_before_year_Suc[of n] by (simp split: if_splits)
qed

lemma day_number_lex:
  assumes "valid_date a" "valid_date b" "date_lex_less a b"
  shows "day_number a < day_number b"
proof -
  obtain y m d where a: "a = (y, m, d)" by (cases a)
  obtain y' m' d' where b: "b = (y', m', d')" by (cases b)
  from assms(1) a have va: "1 \<le> m" "m \<le> 12" "1 \<le> d" "d \<le> days_in_month y m"
    by (auto simp: valid_date_def)
  from assms(2) b have vb: "1 \<le> m'" "m' \<le> 12" "1 \<le> d'" "d' \<le> days_in_month y' m'"
    by (auto simp: valid_date_def)
  have pos: "0 \<le> days_before_month y' m'" by (simp add: days_before_month_def)
  from assms(3) a b consider "y < y'" | "y = y'" "m < m'" | "y = y'" "m = m'" "d < d'"
    by (auto simp: date_lex_less_def)
  then show ?thesis
  proof cases
    case 1
    then have "days_before_year (Suc y) \<le> days_before_year y'"
      by (intro days_before_year_mono) simp
    moreover have "days_before_month y m + int d \<le> (if is_leap y then 366 else 365)"
      using days_to_month_end_le[OF va(1,2), of y] va(4) by simp
    ultimately show ?thesis
      using days_before_year_Suc[of y] pos vb(3) unfolding a b day_number_def
      by (simp split: if_splits)
  next
    case 2
    then have "days_before_month y (Suc m) \<le> days_before_month y m'"
      by (intro days_before_month_mono) simp
    then show ?thesis
      using days_before_month_Suc[OF va(1), of y] va(4) vb(3) 2(1) unfolding a b day_number_def
      by simp
  next
    case 3
    then show ?thesis unfolding a b day_number_def by simp
  qed
qed



lemma digit_char_eq: "a < 10 \<Longrightarrow> b < 10 \<Longrightarrow> digit_char a = digit_char b \<longleftrightarrow> a = b"
  by (metis digit_char_digit(2))

lemma lex_digits2:
  fixes a b a' b' :: nat
  assumes "b < 10" "b' < 10"
  shows "(a < a' \<or> a = a' \<and> b < b') \<longleftrightarrow> 10 * a + b < 10 * a' + b'"
  using assms by arith

lemma eq_digits2:
  fixes a b a' b' :: nat
  assumes "b < 10" "b' < 10"
  shows "10 * a + b = 10 * a' + b' \<longleftrightarrow> a = a' \<and> b = b'"
proof
  assume e: "10 * a + b = 10 * a' + b'"
  from arg_cong[OF e, of "\<lambda>n. n div 10"] arg_cong[OF e, of "\<lambda>n. n mod 10"]
  show "a = a' \<and> b = b'"
    by (simp only: two_digits[OF assms(1)] two_digits[OF assms(2)])
qed simp


lemma days_in_month_le: "days_in_month y m \<le> 31"
  by (simp add: days_in_month_def)

lemma date_chars_calendar:
  assumes "valid_date (parse_ymd s)"
  shows "date_chars s" "parse_iso s = parse_ymd s" "iso_fields (parse_ymd s)"
    "carry_day (parse_ymd s) = parse_ymd s"
proof -
  show "date_chars s"
    by (rule wf_dateE[OF assms]) (simp add: date_chars_def)
  show "parse_iso s = parse_ymd s"
    by (rule wf_dateE[OF assms]) (simp add: parse_iso_def)
  obtain y m d where c: "parse_ymd s = (y, m, d)" by (cases "parse_ymd s")
  with assms have v: "1 \<le> m" "m \<le> 12" "1 \<le> d" "d \<le> days_in_month y m"
    by (simp_all add: valid_date_def)
  with days_in_month_le[of y m] show "iso_fields (parse_ymd s)"
    by (simp add: c iso_fields_def)
  from v show "carry_day (parse_ymd s) = parse_ymd s"
    by (simp add: c carry_day_def)
qed

lemma new_Date_midnight:
  assumes "valid_date (parse_ymd s)"
  shows "new_Date (s @ ''T00:00:00.000Z'') = Some (parse_ymd s)"
  using date_chars_calendar[OF assms] by (simp add: new_Date_def)

lemma not_valid_Invalid_Date: "\<not> valid_date Invalid_Date"
  by (simp add: valid_date_def Invalid_Date_def)

lemma is_date_calendar:
  assumes "valid_date (parse_ymd s)"
  shows "is_date H s" "is_date_next H s"
  using assms by (simp_all add: is_date_def is_date_next_def new_Date_midnight valid_next_day)

lemma expand_loop_stop: "\<not> date_less c e \<Longrightarrow> expand_loop c e acc = acc"
  by (simp add: expand_loop.simps)

lemma expand_loop_eq:
  assumes "valid_date e"
  shows "valid_date c \<Longrightarrow> nat (day_number e - day_number c) = n \<Longrightarrow>
    expand_loop c e acc = acc @ map (\<lambda>i. take 10 (toISOString ((next_day ^^ i) c))) [0..<n]"
proof (induction n arbitrary: c acc)
  case 0
  then have "\<not> date_less c e" by (simp add: date_less_iff)
  then show ?case by (simp add: expand_loop_stop)
next
  case (Suc n)
  then have lt: "date_less c e" using assms by (simp add: date_less_iff)
  have v: "valid_date (next_day c)" using Suc.prems(1) by (rule valid_next_day)
  have n: "nat (day_number e - day_number (next_day c)) = n"
    using Suc.prems by (simp add: day_number_next_day)
  have "expand_loop c e acc = expand_loop (next_day c) e (acc @ [take 10 (toISOString c)])"
    using lt by (subst expand_loop.simps) simp
  also have "\<dots> = (acc @ [take 10 (toISOString c)]) @
      map (\<lambda>i. take 10 (toISOString ((next_day ^^ i) (next_day c)))) [0..<n]"
    by (rule Suc.IH[OF v n])
  also have "map (\<lambda>i. take 10 (toISOString ((next_day ^^ i) (next_day c)))) [0..<n]
      = map (\<lambda>i. take 10 (toISOString ((next_day ^^ i) c))) (map Suc [0..<n])"
    by (simp add: funpow_swap1)
  finally show ?case
    by (simp add: upt_conv_Cons map_Suc_upt del: upt_Suc)
qed

lemma funpow_next_day:
  assumes "valid_date c"
  shows "valid_date ((next_day ^^ i) c) \<and> day_number ((next_day ^^ i) c) = day_number c + int i"
  by (induction i) (use assms in \<open>auto simp: valid_next_day day_number_next_day\<close>)

lemma year_le_of_earlier:
  assumes "valid_date c" "valid_date e" "day_number c < day_number e" "fst e \<le> 9999"
  shows "fst c \<le> 9999"
proof (rule ccontr)
  assume "\<not> fst c \<le> 9999"
  with assms(4) have "date_lex_less e c"
    by (cases c; cases e) (simp add: date_lex_less_def)
  from day_number_lex[OF assms(2,1) this] assms(3) show False by simp
qed

lemma expandRange_eq:
  assumes "valid_date (parse_ymd (startDate r))" "valid_date (parse_ymd (endDate r))"
  shows "expandRange H r =
     map (\<lambda>i. isoDate ((next_day ^^ i) (parse_ymd (startDate r))))
       [0..<nat (day_number (parse_ymd (endDate r)) - day_number (parse_ymd (startDate r)))]"
proof -
  let ?s = "parse_ymd (startDate r)" and ?e = "parse_ymd (endDate r)"
  let ?n = "nat (day_number ?e - day_number ?s)"
  have "expandRange H r = map (\<lambda>i. take 10 (toISOString ((next_day ^^ i) ?s))) [0..<?n]"
    unfolding expandRange_def using assms expand_loop_eq[OF assms(2) assms(1) refl, of "[]"]
    by (simp add: new_Date_midnight)
  also have "\<dots> = map (\<lambda>i. isoDate ((next_day ^^ i) ?s)) [0..<?n]"
  proof (rule map_cong[OF refl])
    fix i assume "i \<in> set [0..<?n]"
    then have i: "int i < day_number ?e - day_number ?s" by simp
    from funpow_next_day[OF assms(1), of i]
    have v: "valid_date ((next_day ^^ i) ?s)" and d: "day_number ((next_day ^^ i) ?s) = day_number ?s + int i"
      by simp_all
    have "fst ((next_day ^^ i) ?s) \<le> 9999"
      by (rule year_le_of_earlier[OF v assms(2) _ parse_year_le[OF assms(2)]]) (use i d in simp)
    then show "take 10 (toISOString ((next_day ^^ i) ?s)) = isoDate ((next_day ^^ i) ?s)"
      by (rule take10_toISOString)
  qed
  finally show ?thesis .
qed

section \<open>Claims about the pure functions\<close>

lemma isoDate_inj:
  assumes "valid_date a" "fst a \<le> 9999" "valid_date b" "fst b \<le> 9999" "isoDate a = isoDate b"
  shows "a = b"
proof -
  have "a = parse_ymd (isoDate a)" by (rule parse_isoDate[OF assms(1,2), symmetric])
  also have "\<dots> = parse_ymd (isoDate b)" by (simp only: assms(5))
  also have "\<dots> = b" by (rule parse_isoDate[OF assms(3,4)])
  finally show ?thesis .
qed

text \<open>
  Claim C8. For a date range whose two dates are calendar dates in the shape
  \<^verbatim>\<open>YYYY-MM-DD\<close> and whose end date is strictly after its start date,
  \<open>expandRange\<close> yields exactly (end - start) strings, counted in calendar days; the
  string at index \<open>i\<close> is the calendar date \<open>i\<close> days after the start date, so the
  list starts at the start date, runs through consecutive dates and leaves out the end
  date. \<open>expandRange\<close> is a function of the range alone (it reads no clock and no
  state), so two calls on the same range give the same list.
\<close>

theorem expandRange_consecutive_nights:
  assumes s: "valid_date (parse_ymd (startDate r))"
    and e: "valid_date (parse_ymd (endDate r))"
    and after: "day_number (parse_ymd (startDate r)) < day_number (parse_ymd (endDate r))"
  shows "length (expandRange H r) =
           nat (day_number (parse_ymd (endDate r)) - day_number (parse_ymd (startDate r)))
       \<and> (\<forall>i < length (expandRange H r).
             valid_date (parse_ymd (expandRange H r ! i)) \<and>
             day_number (parse_ymd (expandRange H r ! i)) =
               day_number (parse_ymd (startDate r)) + int i)
       \<and> hd (expandRange H r) = startDate r
       \<and> endDate r \<notin> set (expandRange H r)"
proof -
  let ?s = "parse_ymd (startDate r)" and ?e = "parse_ymd (endDate r)"
  let ?n = "nat (day_number ?e - day_number ?s)"
  note eq = expandRange_eq[OF s e]
  have len: "length (expandRange H r) = ?n" by (simp add: eq)
  have nth: "valid_date (parse_ymd (expandRange H r ! i)) \<and>
      day_number (parse_ymd (expandRange H r ! i)) = day_number ?s + int i" if "i < ?n" for i
  proof -
    from funpow_next_day[OF s, of i]
    have v: "valid_date ((next_day ^^ i) ?s)"
      and d: "day_number ((next_day ^^ i) ?s) = day_number ?s + int i"
      by simp_all
    have y: "fst ((next_day ^^ i) ?s) \<le> 9999"
      by (rule year_le_of_earlier[OF v e _ parse_year_le[OF e]]) (use that d in simp)
    have "expandRange H r ! i = isoDate ((next_day ^^ i) ?s)" using that by (simp add: eq)
    then show ?thesis using parse_isoDate[OF v y] v d by simp
  qed
  have pos: "0 < ?n" using after by simp
  have ne: "expandRange H r \<noteq> []" using pos len by auto
  have "hd (expandRange H r) = expandRange H r ! 0"
    by (rule hd_conv_nth[OF ne])
  also have "\<dots> = isoDate ?s" using pos by (simp add: eq)
  also have "\<dots> = startDate r" by (rule isoDate_parse[OF s])
  finally have hd: "hd (expandRange H r) = startDate r" .
  have notin: "endDate r \<notin> set (expandRange H r)"
  proof
    assume "endDate r \<in> set (expandRange H r)"
    then obtain i where i: "i < ?n" "expandRange H r ! i = endDate r"
      by (auto simp: in_set_conv_nth len)
    from nth[OF i(1)] i(2) have "day_number ?e = day_number ?s + int i" by simp
    with i(1) show False by simp
  qed
  from len nth hd notin show ?thesis by simp
qed

theorem expandRange_consecutive_nights_witness:
  "valid_date (parse_ymd ''2024-02-27'') \<and> valid_date (parse_ymd ''2024-03-02'')
   \<and> day_number (parse_ymd ''2024-02-27'') < day_number (parse_ymd ''2024-03-02'')
   \<and> length (expandRange no_heuristics \<lparr>startDate = ''2024-02-27'', endDate = ''2024-03-02''\<rparr>) = 4
   \<and> hd (expandRange no_heuristics \<lparr>startDate = ''2024-02-27'', endDate = ''2024-03-02''\<rparr>) = ''2024-02-27''
   \<and> ''2024-03-02'' \<notin> set (expandRange no_heuristics \<lparr>startDate = ''2024-02-27'', endDate = ''2024-03-02''\<rparr>)
   \<and> expandRange no_heuristics \<lparr>startDate = ''2024-02-27'', endDate = ''2024-03-02''\<rparr> =
       [''2024-02-27'', ''2024-02-28'', ''2024-02-29'', ''2024-03-01'']"
proof -
  let ?r = "\<lparr>startDate = ''2024-02-27'', endDate = ''2024-03-02''\<rparr>"
  have s: "valid_date (parse_ymd (startDate ?r))" by (simp add: date_eval)
  have e: "valid_date (parse_ymd (endDate ?r))" by (simp add: date_eval)
  have ds: "day_number (parse_ymd (startDate ?r)) = 19780" by (simp add: date_eval)
  have de: "day_number (parse_ymd (endDate ?r)) = 19784" by (simp add: date_eval)
  have a: "day_number (parse_ymd (startDate ?r)) < day_number (parse_ymd (endDate ?r))"
    using ds de by simp
  have x: "expandRange no_heuristics ?r = [''2024-02-27'', ''2024-02-28'', ''2024-02-29'', ''2024-03-01'']"
    by (simp add: expandRange_def expand_loop.simps date_eval)
  from expandRange_consecutive_nights[OF s e a] s e a x ds de show ?thesis
    by simp
qed

lemma allAvailable_iff:
  "allAvailable tbl nights \<longleftrightarrow> (\<forall>d\<in>set nights. \<exists>n. tbl d = Some n \<and> 0 < n)"
  by (auto simp: allAvailable_def list_all_iff split: option.splits)

lemma firstAvailable_Some:
  "firstAvailable H tbl ranges = Some r \<Longrightarrow>
     \<exists>i<length ranges. ranges ! i = r \<and> allAvailable tbl (expandRange H r) \<and>
       (\<forall>j<i. \<not> allAvailable tbl (expandRange H (ranges ! j)))"
proof (induction ranges)
  case Nil
  then show ?case by simp
next
  case (Cons a ranges)
  show ?case
  proof (cases "allAvailable tbl (expandRange H a)")
    case True
    with Cons.prems have "a = r" by simp
    with True show ?thesis by (intro exI[of _ 0]) simp
  next
    case False
    with Cons.prems have "firstAvailable H tbl ranges = Some r" by simp
    from Cons.IH[OF this] obtain i where i: "i < length ranges" "ranges ! i = r"
      "allAvailable tbl (expandRange H r)" "\<forall>j<i. \<not> allAvailable tbl (expandRange H (ranges ! j))"
      by blast
    show ?thesis
    proof (intro exI[of _ "Suc i"] conjI allI impI)
      fix j assume "j < Suc i"
      then show "\<not> allAvailable tbl (expandRange H ((a # ranges) ! j))"
        using False i(4) by (cases j) simp_all
    qed (use i in simp_all)
  qed
qed

lemma firstAvailable_None:
  "firstAvailable H tbl ranges = None \<longleftrightarrow> (\<forall>r\<in>set ranges. \<not> allAvailable tbl (expandRange H r))"
  by (induction ranges) auto

lemma availByDate_map_of:
  "availByDate entries = map_of (rev (map (\<lambda>(isoDate, remaining). (take 10 isoDate, remaining)) entries))"
  unfolding availByDate_def
  by (induction entries rule: rev_induct) (auto simp: fun_eq_iff)

lemma query_window_valid:
  assumes "ranges \<noteq> []"
    and "\<forall>r\<in>set ranges. valid_date (parse_ymd (startDate r)) \<and> valid_date (parse_ymd (endDate r))"
  shows "is_date H (hd (sort (map startDate ranges)))"
    and "is_date_next H (last (sort (map endDate ranges)))"
proof -
  have "sort (map startDate ranges) \<noteq> []"
    by (metis assms(1) length_0_conv length_map length_sort)
  then have "hd (sort (map startDate ranges)) \<in> set (sort (map startDate ranges))" by (rule hd_in_set)
  then have "hd (sort (map startDate ranges)) \<in> startDate ` set ranges" by simp
  with assms(2) show "is_date H (hd (sort (map startDate ranges)))"
    by (auto simp: is_date_calendar)
  have "sort (map endDate ranges) \<noteq> []"
    by (metis assms(1) length_0_conv length_map length_sort)
  then have "last (sort (map endDate ranges)) \<in> set (sort (map endDate ranges))" by (rule last_in_set)
  then have "last (sort (map endDate ranges)) \<in> endDate ` set ranges" by simp
  with assms(2) show "is_date_next H (last (sort (map endDate ranges)))"
    by (auto simp: is_date_calendar)
qed

lemma checkAvailability_returns:
  assumes "ranges \<noteq> []"
    and "\<forall>r\<in>set ranges. valid_date (parse_ymd (startDate r)) \<and> valid_date (parse_ymd (endDate r))"
    and "res_ok code" "availability division = Some entries"
  shows "checkAvailability H (Response code availability) permit division ranges
           = Inr (firstAvailable H (availByDate entries) ranges)"
  using query_window_valid[OF assms(1,2), of H] assms
  by (simp add: checkAvailability_def Let_def)

lemma checkAvailability_Inr:
  assumes "checkAvailability H (Response code availability) permit division ranges = Inr result"
    and "availability division = Some entries"
  shows "result = firstAvailable H (availByDate entries) ranges"
  using assms by (auto simp: checkAvailability_def Let_def split: if_splits)

text \<open>
  Claim C1. Whenever \<open>checkAvailability\<close> receives a successful response that holds the
  division, it returns (for every non-empty list of ranges with calendar dates) and the
  value it returns is the first range of the list, in list order, every night of
  which has remaining capacity strictly greater than 0 in the table built from the
  response: each earlier range has a night whose remaining capacity is 0 or less, or
  which the table lacks; no returned range has such a night; and \<open>None\<close> is returned
  exactly when every range has such a night.
\<close>

theorem checkAvailability_first_fully_available:
  assumes ok: "res_ok code" and division: "availability division = Some entries"
  shows "(ranges \<noteq> [] \<and>
          (\<forall>r\<in>set ranges. valid_date (parse_ymd (startDate r)) \<and>
                           valid_date (parse_ymd (endDate r))) \<longrightarrow>
          (\<exists>result. checkAvailability H (Response code availability) permit division ranges
                      = Inr result))
       \<and> (\<forall>result.
            checkAvailability H (Response code availability) permit division ranges
              = Inr result \<longrightarrow>
            (case result of
               Some r \<Rightarrow>
                 (\<exists>i<length ranges. ranges ! i = r \<and>
                    (\<forall>j<i. \<exists>d\<in>set (expandRange H (ranges ! j)).
                       \<not> (\<exists>n. availByDate entries d = Some n \<and> 0 < n)))
                 \<and> (\<forall>d\<in>set (expandRange H r). \<exists>n. availByDate entries d = Some n \<and> 0 < n)
             | None \<Rightarrow>
                 \<forall>r\<in>set ranges. \<exists>d\<in>set (expandRange H r).
                    \<not> (\<exists>n. availByDate entries d = Some n \<and> 0 < n)))"
proof (intro conjI impI allI)
  assume "ranges \<noteq> [] \<and>
          (\<forall>r\<in>set ranges. valid_date (parse_ymd (startDate r)) \<and>
                           valid_date (parse_ymd (endDate r)))"
  then show "\<exists>result. checkAvailability H (Response code availability) permit division ranges
                      = Inr result"
    using checkAvailability_returns[where ranges=ranges and code=code
        and availability=availability and division=division and entries=entries
        and permit=permit] ok division
    by blast
next
  fix result
  assume c: "checkAvailability H (Response code availability) permit division ranges = Inr result"
  have r: "result = firstAvailable H (availByDate entries) ranges"
    by (rule checkAvailability_Inr[where availability=availability and division=division,
          OF c division])
  show "case result of
               Some r \<Rightarrow>
                 (\<exists>i<length ranges. ranges ! i = r \<and>
                    (\<forall>j<i. \<exists>d\<in>set (expandRange H (ranges ! j)).
                       \<not> (\<exists>n. availByDate entries d = Some n \<and> 0 < n)))
                 \<and> (\<forall>d\<in>set (expandRange H r). \<exists>n. availByDate entries d = Some n \<and> 0 < n)
             | None \<Rightarrow>
                 \<forall>r\<in>set ranges. \<exists>d\<in>set (expandRange H r).
                    \<not> (\<exists>n. availByDate entries d = Some n \<and> 0 < n)"
  proof (cases result)
    case None
    with r have "firstAvailable H (availByDate entries) ranges = None" by simp
    then show ?thesis
      unfolding None firstAvailable_None allAvailable_iff by simp
  next
    case (Some x)
    with r have "firstAvailable H (availByDate entries) ranges = Some x" by simp
    from firstAvailable_Some[OF this] show ?thesis
      unfolding Some allAvailable_iff by (simp, blast)
  qed
qed

theorem checkAvailability_first_fully_available_witness:
  "res_ok 200
   \<and> checkAvailability no_heuristics
        (Response 200 [''412'' \<mapsto> [(''2026-07-15T00:00:00Z'', 3), (''2026-07-16T00:00:00Z'', 0),
                                 (''2026-07-20T00:00:00Z'', 2), (''2026-07-21T00:00:00Z'', 1)]])
        ''4675310'' ''412''
        [\<lparr>startDate = ''2026-07-15'', endDate = ''2026-07-17''\<rparr>,
         \<lparr>startDate = ''2026-07-20'', endDate = ''2026-07-22''\<rparr>]
      = Inr (Some \<lparr>startDate = ''2026-07-20'', endDate = ''2026-07-22''\<rparr>)
   \<and> (\<exists>n. availByDate [(''2026-07-15T00:00:00Z'', 3), (''2026-07-16T00:00:00Z'', 0),
                         (''2026-07-20T00:00:00Z'', 2), (''2026-07-21T00:00:00Z'', 1)]
             ''2026-07-21'' = Some n \<and> 0 < n)
   \<and> availByDate [(''2026-07-15T00:00:00Z'', 3), (''2026-07-16T00:00:00Z'', 0),
                  (''2026-07-20T00:00:00Z'', 2), (''2026-07-21T00:00:00Z'', 1)]
         ''2026-07-16'' = Some 0"
proof -
  let ?entries = "[(''2026-07-15T00:00:00Z'', 3), (''2026-07-16T00:00:00Z'', 0),
                   (''2026-07-20T00:00:00Z'', 2), (''2026-07-21T00:00:00Z'', 1 :: int)]"
  let ?av = "[''412'' \<mapsto> ?entries]"
  let ?r1 = "\<lparr>startDate = ''2026-07-15'', endDate = ''2026-07-17''\<rparr>"
  let ?r2 = "\<lparr>startDate = ''2026-07-20'', endDate = ''2026-07-22''\<rparr>"
  have ok: "res_ok 200" by (simp add: res_ok_def)
  have division: "?av ''412'' = Some ?entries" by simp
  have x1: "expandRange no_heuristics ?r1 = [''2026-07-15'', ''2026-07-16'']"
    by (simp add: expandRange_def expand_loop.simps date_eval)
  have x2: "expandRange no_heuristics ?r2 = [''2026-07-20'', ''2026-07-21'']"
    by (simp add: expandRange_def expand_loop.simps date_eval)
  have c: "checkAvailability no_heuristics (Response 200 ?av) ''4675310'' ''412'' [?r1, ?r2] = Inr (Some ?r2)"
    by (simp add: avail_eval date_eval)
  from checkAvailability_first_fully_available[where availability="?av" and division="''412''"
      and ranges="[?r1, ?r2]" and permit="''4675310''",
      OF ok division, THEN conjunct2, rule_format, OF c]
  have "\<forall>d\<in>set (expandRange no_heuristics ?r2). \<exists>n. availByDate ?entries d = Some n \<and> 0 < n"
    by simp
  then have "\<exists>n. availByDate ?entries ''2026-07-21'' = Some n \<and> 0 < n"
    by (simp add: x2)
  moreover have "availByDate ?entries ''2026-07-16'' = Some 0"
    by (simp add: availByDate_def)
  ultimately show ?thesis using ok c by simp
qed





section \<open>Claims about scheduling and the engine\<close>

lemma example_pending_state:
  "armed (example_pending b environment) 0 = Some 0"
  "status (heap (example_pending b environment) 0) = Pending"
  "jobId (heap (example_pending b environment) 0) = ''job-1''"
  "env (example_pending b environment) = environment"
  by (cases b; simp add: sys_eval)+

text \<open>
  Claim C3, as amended. When the trigger of a job fires while the credentials are
  absent, no browser is launched and no activation of the engine is left waiting. In
  the build with per-job credentials the job keeps its status (a pending job stays
  pending) and only its message and \<open>updatedAt\<close> change; in the build that reads the
  credentials from the environment the job becomes failed, with the message that names
  the missing variables.
\<close>

theorem trigger_without_credentials:
  assumes "armed s h = Some job"
  shows "(getRecgovCredentials (env s) =
            Inl ''RECGOV_EMAIL and RECGOV_PASSWORD environment variables are required for sniper jobs'' \<longrightarrow>
          heap (timer_fires EnvCredentials now h s) job =
            (heap s job)\<lparr>status := Failed,
              message := ''RECGOV_EMAIL and RECGOV_PASSWORD environment variables are required for sniper jobs'',
              updatedAt := now\<rparr>
          \<and> tasks (timer_fires EnvCredentials now h s) = tasks s
          \<and> browsers (timer_fires EnvCredentials now h s) = browsers s
          \<and> nextBrowser (timer_fires EnvCredentials now h s) = nextBrowser s)
       \<and> (credentials s (jobId (heap s job)) = None \<longrightarrow>
          heap (timer_fires JobCredentials now h s) job =
            (heap s job)\<lparr>message :=
              ''Cannot start: credentials not provided. Re-enter via the Sniper page.'',
              updatedAt := now\<rparr>
          \<and> status (heap (timer_fires JobCredentials now h s) job) = status (heap s job)
          \<and> tasks (timer_fires JobCredentials now h s) = tasks s
          \<and> browsers (timer_fires JobCredentials now h s) = browsers s
          \<and> nextBrowser (timer_fires JobCredentials now h s) = nextBrowser s)"
  using assms
  by (simp add: timer_fires_def runSniperJob_def updateJob_def notify_def Let_def)

theorem trigger_without_credentials_counterexample:
  "armed (example_pending EnvCredentials Map.empty) 0 = Some 0
   \<and> status (heap (example_pending EnvCredentials Map.empty) 0) = Pending
   \<and> getRecgovCredentials (env (example_pending EnvCredentials Map.empty)) =
       Inl ''RECGOV_EMAIL and RECGOV_PASSWORD environment variables are required for sniper jobs''
   \<and> status (heap (step no_heuristics EnvCredentials (example_pending EnvCredentials Map.empty)
                      (9880000, TimerFires 0)) 0) = Failed"
  by (simp add: sys_eval)

theorem trigger_without_credentials_witness:
  "status (heap (timer_fires EnvCredentials 9880000 0 (example_pending EnvCredentials Map.empty)) 0)
     = Failed
   \<and> tasks (timer_fires EnvCredentials 9880000 0 (example_pending EnvCredentials Map.empty))
     = tasks (example_pending EnvCredentials Map.empty)
   \<and> status (heap (timer_fires JobCredentials 9880000 0
        ((example_pending JobCredentials Map.empty)\<lparr>credentials := Map.empty\<rparr>)) 0) = Pending
   \<and> message (heap (timer_fires JobCredentials 9880000 0
        ((example_pending JobCredentials Map.empty)\<lparr>credentials := Map.empty\<rparr>)) 0)
     = ''Cannot start: credentials not provided. Re-enter via the Sniper page.''"
proof -
  let ?e = "example_pending EnvCredentials Map.empty"
  let ?j = "(example_pending JobCredentials Map.empty)\<lparr>credentials := Map.empty\<rparr>"
  have a: "armed ?e 0 = Some 0" by (rule example_pending_state)
  have c: "getRecgovCredentials (env ?e) =
       Inl ''RECGOV_EMAIL and RECGOV_PASSWORD environment variables are required for sniper jobs''"
    by (simp add: example_pending_state getRecgovCredentials_def)
  have a': "armed ?j 0 = Some 0" by (simp add: example_pending_state)
  have c': "credentials ?j (jobId (heap ?j 0)) = None" by simp
  have p: "status (heap ?j 0) = Pending" by (simp add: example_pending_state)
  from trigger_without_credentials[OF a, of 9880000, THEN conjunct1, rule_format, OF c]
       trigger_without_credentials[OF a', of 9880000, THEN conjunct2, rule_format, OF c'] p
  show ?thesis by simp
qed

end
